theory Spec2Isabelle
  imports Main "HOL-Library.Word" "HOL-Library.Sublist"
begin

unbundle bit_operations_syntax

section \<open>Data model\<close>

text \<open>
  The firmware keeps its state in file-level statics of \<^verbatim>\<open>ftpUiScreen.cpp\<close> and
  \<^verbatim>\<open>main.cpp\<close>. They are gathered in one record that every operation takes and returns.

  \<^item> A C string is the list of its bytes before the terminating NUL.
  \<^item> A pointer that may be \<^verbatim>\<open>nullptr\<close> is an \<open>option\<close>; a widget pointer carries the
    widget's visible content (the text of a label, the checked state of the switch, the
    hidden flag of the spinner).
  \<^item> Calls into the external collaborators (LVGL, the WiFi driver, the FTP service, the
    SD driver) are appended to \<open>calls\<close>, in the order the code makes them.
  \<^item> The wall clock is an input: \<open>clock s n\<close> is what \<^verbatim>\<open>time\<close>, \<^verbatim>\<open>localtime_r\<close> and
    \<^verbatim>\<open>strftime("%H:%M:%S")\<close> yield on the \<open>n\<close>-th reading, and \<open>clock_reads\<close> counts the
    readings made so far.
  \<^item> The locks (\<^verbatim>\<open>logMutex\<close>, \<^verbatim>\<open>lv_lock\<close>) and the serial console (\<^verbatim>\<open>ESP_LOGx\<close>) are
    not part of the model: every operation runs to completion on its own.
\<close>

datatype call =
    Lv_textarea_set_text string
  | Lv_obj_scroll_to_y
  | Lv_label_set_text_status string
  | Lv_label_set_text_ip string
  | Esp_netif_init
  | Esp_wifi_start
  | Esp_wifi_connect
  | Esp_sntp_init
  | Ftp_new
  | Ftp_start
  | Ftp_stop
  | Ftp_isEnabled
  | Ftp_getState
  | Sdmmc_get_status

datatype callback = Ftp_control_handler

datatype ftp_server = FtpServer_instance

datatype sdmmc_card = Sdmmc_card

record sys =
  log_textarea :: "string option"
  status_label :: "string option"
  ip_label :: "string option"
  server_switch :: "bool option"
  spinner :: "bool option"
  ftp_operation_in_progress :: bool
  log_buffer :: string
  log_line_count :: int
  ftp_control_callback :: "callback option"
  ftpServer :: "ftp_server option"
  wifi_connected_bit :: bool
  wifi_fail_bit :: bool
  s_retry_num :: int
  screen_created :: bool
  sdcard_was_present :: bool
  sdcard :: "sdmmc_card option"
  wl_handle :: int
  clock :: "nat \<Rightarrow> string"
  clock_reads :: nat
  calls :: "call list"

section \<open>The log buffer (ftpUiScreen.cpp)\<close>

definition MAX_LOG_LINES :: nat where
  "MAX_LOG_LINES = 50"

definition MAX_LINE_LENGTH :: nat where
  "MAX_LINE_LENGTH = 100"

text \<open>\<^verbatim>\<open>sizeof(log_buffer)\<close> and \<^verbatim>\<open>max_len = sizeof(log_buffer) - 1\<close>.\<close>

definition sizeof_log_buffer :: nat where
  "sizeof_log_buffer = MAX_LOG_LINES * MAX_LINE_LENGTH"

definition max_len :: nat where
  "max_len = sizeof_log_buffer - 1"

definition newline :: char where
  "newline = CHR 0x0A"

text \<open>
  \<^verbatim>\<open>snprintf(log_line, sizeof(log_line), "[%s] %s\n", timestamp, message)\<close>: the formatted
  text is cut to the \<open>MAX_LINE_LENGTH - 1\<close> bytes that fit before the NUL.
\<close>

definition snprintf_log_line :: "string \<Rightarrow> string \<Rightarrow> string" where
  "snprintf_log_line timestamp message =
     take (MAX_LINE_LENGTH - 1) (''['' @ timestamp @ ''] '' @ message @ [newline])"

text \<open>\<^verbatim>\<open>strchr(buf, c)\<close>: the offset of the first \<open>c\<close>, or \<open>None\<close> for a null result.\<close>

definition strchr :: "string \<Rightarrow> char \<Rightarrow> nat option" where
  "strchr buf c =
     (if c \<in> set buf then Some (length (takeWhile (\<lambda>x. x \<noteq> c) buf)) else None)"

text \<open>
  The first loop of \<^verbatim>\<open>addLog\<close>: while the new line does not fit and lines are counted,
  drop the bytes up to and including the first newline (\<^verbatim>\<open>memmove\<close>); with no newline
  left, clear everything and leave the loop. \<open>current_len\<close> is the local the loop
  keeps; \<^verbatim>\<open>size_t\<close> subtraction cannot wrap there, the removed bytes being part of the
  buffer.
\<close>

function evict_for_space :: "string \<Rightarrow> int \<Rightarrow> nat \<Rightarrow> nat \<Rightarrow> string \<times> int" where
  "evict_for_space buf cnt current_len line_len =
     (if current_len + line_len > max_len \<and> cnt > 0 then
        (case strchr buf newline of
           Some i \<Rightarrow> evict_for_space (drop (i + 1) buf) (cnt - 1) (current_len - (i + 1)) line_len
         | None \<Rightarrow> ([], 0))
      else (buf, cnt))"
  by pat_completeness auto
termination
  by (relation "measure (\<lambda>(buf, cnt, current_len, line_len). nat cnt)") auto

declare evict_for_space.simps [simp del]

text \<open>The second loop: while \<^verbatim>\<open>log_line_count >= MAX_LOG_LINES\<close>, drop the oldest line.\<close>

function enforce_line_limit :: "string \<Rightarrow> int \<Rightarrow> string \<times> int" where
  "enforce_line_limit buf cnt =
     (if cnt \<ge> int MAX_LOG_LINES then
        (case strchr buf newline of
           Some i \<Rightarrow> enforce_line_limit (drop (i + 1) buf) (cnt - 1)
         | None \<Rightarrow> ([], 0))
      else (buf, cnt))"
  by pat_completeness auto
termination
  by (relation "measure (\<lambda>(buf, cnt). nat cnt)") (auto simp: MAX_LOG_LINES_def)

declare enforce_line_limit.simps [simp del]

text \<open>
  The final step: \<^verbatim>\<open>strncpy\<close> into an empty buffer or \<^verbatim>\<open>strncat\<close> behind the old text
  when the line fits, else the buffer is overwritten by the line and the count set to 1.
  \<^verbatim>\<open>log_buffer[max_len] = '\0'\<close> cuts the text at \<open>max_len\<close> bytes.
\<close>

definition append_line :: "string \<Rightarrow> int \<Rightarrow> string \<Rightarrow> string \<times> int" where
  "append_line buf cnt log_line =
     (let current_len = length buf; line_len = length log_line in
      if current_len + line_len \<le> max_len then
        (take max_len
           (if current_len = 0 then take max_len log_line
            else buf @ take (max_len - current_len) log_line),
         cnt + 1)
      else (take max_len (take max_len log_line), 1))"

definition addLog :: "string option \<Rightarrow> sys \<Rightarrow> sys" where
  "addLog message s =
     (if log_textarea s = None \<or> message = None then s
      else
        let timestamp = clock s (clock_reads s);
            log_line = snprintf_log_line timestamp (the message);
            (b1, c1) = evict_for_space (log_buffer s) (log_line_count s)
                         (length (log_buffer s)) (length log_line);
            (b2, c2) = enforce_line_limit b1 c1;
            (b3, c3) = append_line b2 c2 log_line
        in s\<lparr>clock_reads := clock_reads s + 1,
             log_buffer := b3,
             log_line_count := c3,
             log_textarea := Some b3,
             calls := calls s @ [Lv_textarea_set_text b3, Lv_obj_scroll_to_y]\<rparr>)"

definition clearLog :: "sys \<Rightarrow> sys" where
  "clearLog s =
     (if log_textarea s = None then s
      else s\<lparr>log_buffer := [], log_line_count := 0, log_textarea := Some [],
             calls := calls s @ [Lv_textarea_set_text []]\<rparr>)"

text \<open>
  \<^verbatim>\<open>create_screen_ftp\<close>: every widget is created (the pointers become non-null) with its
  initial content, the log buffer is zeroed and the line count reset. The in-flight flag
  and the registered callback are not touched. The texts set on the status label, the IP
  label and the log textarea are recorded as calls, in the order the code sets them. The
  widgets no property below reads (title, port and time labels, the clear button) are
  left out of the state, and so are the calls that fill them.
\<close>

definition create_screen_ftp :: "sys \<Rightarrow> sys" where
  "create_screen_ftp s =
     s\<lparr>status_label := Some ''Disabled'',
       spinner := Some True,
       ip_label := Some ''IP: Connecting...'',
       server_switch := Some False,
       log_textarea := Some [],
       log_buffer := [],
       log_line_count := 0,
       calls := calls s @ [Lv_label_set_text_status ''Disabled'',
                           Lv_label_set_text_ip ''IP: Connecting...'',
                           Lv_textarea_set_text []]\<rparr>"

text \<open>A sequence of \<^verbatim>\<open>addLog\<close> calls, oldest first.\<close>

fun addLog_seq :: "string option list \<Rightarrow> sys \<Rightarrow> sys" where
  "addLog_seq [] s = s"
| "addLog_seq (m # ms) s = addLog_seq ms (addLog m s)"

definition log_ring_inv :: "sys \<Rightarrow> bool" where
  "log_ring_inv s =
     (length (log_buffer s) \<le> max_len \<and> 0 \<le> log_line_count s
      \<and> log_line_count s \<le> int MAX_LOG_LINES)"

section \<open>Widget setters and the toggle switch (ftpUiScreen.cpp)\<close>

definition ext_call :: "call \<Rightarrow> sys \<Rightarrow> sys" where
  "ext_call c s = s\<lparr>calls := calls s @ [c]\<rparr>"

text \<open>\<^verbatim>\<open>strstr(haystack, needle) != nullptr\<close>.\<close>

fun strstr :: "string \<Rightarrow> string \<Rightarrow> bool" where
  "strstr [] needle = (needle = [])"
| "strstr (h # hs) needle = (prefix needle (h # hs) \<or> strstr hs needle)"

text \<open>\<^verbatim>\<open>snprintf(ip_str, sizeof(ip_str), "IP: %s", ip)\<close> with a 64-byte buffer.\<close>

definition update_ip_label :: "string \<Rightarrow> sys \<Rightarrow> sys" where
  "update_ip_label ip s =
     (if ip_label s = None then s
      else let ip_str = take 63 (''IP: '' @ ip)
           in ext_call (Lv_label_set_text_ip ip_str) (s\<lparr>ip_label := Some ip_str\<rparr>))"

definition update_status :: "string \<Rightarrow> sys \<Rightarrow> sys" where
  "update_status status s =
     (if status_label s = None then s
      else
        let s1 = ext_call (Lv_label_set_text_status status) (s\<lparr>status_label := Some status\<rparr>)
        in if spinner s1 = None then s1
           else if status = ''Starting...'' \<or> status = ''Stopping...'' \<or> status = ''Ready''
                   \<or> strstr status ''File''
                then s1\<lparr>spinner := Some False\<rparr>
                else s1\<lparr>spinner := Some True\<rparr>)"

definition set_server_switch_state :: "bool \<Rightarrow> sys \<Rightarrow> sys" where
  "set_server_switch_state enabled s =
     (if server_switch s = None then s else s\<lparr>server_switch := Some enabled\<rparr>)"

definition reset_ftp_operation_flag :: "sys \<Rightarrow> sys" where
  "reset_ftp_operation_flag s = s\<lparr>ftp_operation_in_progress := False\<rparr>"

definition register_ftp_control_callback :: "callback option \<Rightarrow> sys \<Rightarrow> sys" where
  "register_ftp_control_callback cb s = s\<lparr>ftp_control_callback := cb\<rparr>"

section \<open>The control handler (main.cpp)\<close>

text \<open>
  \<^verbatim>\<open>safe_log\<close>: the screen is written only once \<^verbatim>\<open>screen_created\<close> is set.
\<close>

definition safe_log :: "string option \<Rightarrow> sys \<Rightarrow> sys" where
  "safe_log message s = (if screen_created s then addLog message s else s)"

text \<open>
  \<^verbatim>\<open>ftp_control_handler(start)\<close>. The service is external: \<open>is_enabled\<close> is what its
  \<^verbatim>\<open>isEnabled()\<close> answers after the 500 ms settle delay, and \<open>ftp_user\<close> is the build
  constant \<^verbatim>\<open>CONFIG_FTP_USER\<close>; \<^verbatim>\<open>ftp_msg\<close> is a 64-byte buffer.
\<close>

definition ftp_control_handler :: "string \<Rightarrow> bool \<Rightarrow> bool \<Rightarrow> sys \<Rightarrow> sys" where
  "ftp_control_handler ftp_user is_enabled start s =
     (if ftpServer s = None then reset_ftp_operation_flag s
      else if start then
        let s1 = ext_call Ftp_start s;
            s2 = ext_call Ftp_isEnabled s1;
            s3 = (if is_enabled then
                    let s4 = addLog (Some ''#00ff00 [OK] FTP server started#'') s2;
                        s5 = update_status ''Ready'' s4;
                        ftp_msg = take 63 (''User: '' @ ftp_user @ '' | Port: 21'')
                    in addLog (Some ftp_msg) s5
                  else
                    let s4 = addLog (Some ''#ff0000 [!!] FTP failed to start#'') s2;
                        s5 = update_status ''Error'' s4
                    in set_server_switch_state False s5)
        in reset_ftp_operation_flag s3
      else
        let s1 = ext_call Ftp_stop s;
            s2 = addLog (Some ''#00ff00 [OK] FTP server stopped#'') s1;
            s3 = update_status ''Stopped'' s2
        in reset_ftp_operation_flag s3)"

section \<open>The switch event handler (ftpUiScreen.cpp)\<close>

datatype lv_event_code = LV_EVENT_CLICKED | LV_EVENT_VALUE_CHANGED | LV_EVENT_OTHER

text \<open>
  The part of \<^verbatim>\<open>server_switch_event_cb\<close> that runs once a toggle is accepted, before the
  registered callback is called: the in-flight flag is stored, the log line added and the
  status published.
\<close>

definition toggle_accepted :: "bool \<Rightarrow> sys \<Rightarrow> sys" where
  "toggle_accepted is_checked s =
     (let s1 = s\<lparr>ftp_operation_in_progress := True\<rparr>
      in if is_checked then update_status ''Starting...'' (addLog (Some ''Starting FTP server...'') s1)
         else update_status ''Stopping...'' (addLog (Some ''Stopping FTP server...'') s1))"

text \<open>
  \<^verbatim>\<open>server_switch_event_cb\<close>. The event target is the switch the callback is attached to;
  without a switch there is no event. The only function this program ever registers as
  \<^verbatim>\<open>ftp_control_callback\<close> is \<^verbatim>\<open>ftp_control_handler\<close>.
\<close>

definition server_switch_event_cb ::
    "lv_event_code \<Rightarrow> string \<Rightarrow> bool \<Rightarrow> sys \<Rightarrow> sys" where
  "server_switch_event_cb code ftp_user is_enabled s =
     (if code = LV_EVENT_VALUE_CHANGED \<and> server_switch s \<noteq> None then
        let is_checked = (server_switch s = Some True) in
        if ftp_operation_in_progress s then
          (if is_checked then s\<lparr>server_switch := Some False\<rparr>
           else s\<lparr>server_switch := Some True\<rparr>)
        else
          let s1 = toggle_accepted is_checked s in
          (case ftp_control_callback s1 of
             Some Ftp_control_handler \<Rightarrow> ftp_control_handler ftp_user is_enabled is_checked s1
           | None \<Rightarrow> s1)
      else s)"

text \<open>
  A user toggle: LVGL's switch widget flips its checked state and then sends
  \<^verbatim>\<open>LV_EVENT_VALUE_CHANGED\<close> to the callback.
\<close>

definition user_toggle :: "string \<Rightarrow> bool \<Rightarrow> sys \<Rightarrow> sys" where
  "user_toggle ftp_user is_enabled s =
     server_switch_event_cb LV_EVENT_VALUE_CHANGED ftp_user is_enabled
       (s\<lparr>server_switch := map_option Not (server_switch s)\<rparr>)"

text \<open>How often \<^verbatim>\<open>start()\<close> or \<^verbatim>\<open>stop()\<close> of the service has been called.\<close>

definition start_stop_calls :: "sys \<Rightarrow> nat" where
  "start_stop_calls s = count_list (calls s) Ftp_start + count_list (calls s) Ftp_stop"

section \<open>The WiFi event handler (main.cpp)\<close>

text \<open>
  The events the handler is registered for. \<^verbatim>\<open>IP_EVENT_STA_GOT_IP\<close> carries the assigned
  address, here already in the dotted form \<^verbatim>\<open>IPSTR\<close> prints.
\<close>

datatype wifi_event =
    WIFI_EVENT_STA_START
  | WIFI_EVENT_STA_DISCONNECTED
  | IP_EVENT_STA_GOT_IP string
  | WIFI_EVENT_OTHER

definition wifi_event_handler :: "wifi_event \<Rightarrow> sys \<Rightarrow> sys" where
  "wifi_event_handler ev s =
     (case ev of
        WIFI_EVENT_STA_START \<Rightarrow> ext_call Esp_wifi_connect s
      | WIFI_EVENT_STA_DISCONNECTED \<Rightarrow>
          if s_retry_num s < 10 then
            (ext_call Esp_wifi_connect s)\<lparr>s_retry_num := s_retry_num s + 1\<rparr>
          else safe_log (Some ''WiFi connection failed'') (s\<lparr>wifi_fail_bit := True\<rparr>)
      | IP_EVENT_STA_GOT_IP ip \<Rightarrow>
          let s1 = safe_log (Some (take 63 (''IP: '' @ ip))) s;
              s2 = (if screen_created s1 then update_ip_label (take 63 ip) s1 else s1)
          in s2\<lparr>s_retry_num := 0, wifi_connected_bit := True\<rparr>
      | WIFI_EVENT_OTHER \<Rightarrow> s)"

text \<open>The handler run over the events the driver delivers, oldest first.\<close>

fun wifi_events :: "wifi_event list \<Rightarrow> sys \<Rightarrow> sys" where
  "wifi_events [] s = s"
| "wifi_events (ev # evs) s = wifi_events evs (wifi_event_handler ev s)"

definition connect_calls :: "sys \<Rightarrow> nat" where
  "connect_calls s = count_list (calls s) Esp_wifi_connect"

section \<open>Storage mounting (filesystem.cpp)\<close>

type_synonym esp_err_t = int

definition ESP_OK :: esp_err_t where
  "ESP_OK = 0"

text \<open>
  \<^verbatim>\<open>mountFATFS\<close>: \<open>ret\<close> is what \<^verbatim>\<open>esp_vfs_fat_spiflash_mount_rw_wl\<close> returns and
  \<open>s_wl_handle\<close> the wear-levelling handle it stores; on an error the function returns -1.
\<close>

definition mountFATFS :: "esp_err_t \<Rightarrow> int \<Rightarrow> int" where
  "mountFATFS ret s_wl_handle = (if ret \<noteq> ESP_OK then - 1 else s_wl_handle)"

text \<open>
  \<^verbatim>\<open>mountSDCARD(mount_point, &sdcard)\<close>: \<open>bus_ret\<close> is what \<^verbatim>\<open>spi_bus_initialize\<close> returns
  and \<open>mount_ret\<close> what \<^verbatim>\<open>esp_vfs_fat_sdspi_mount\<close> returns; the driver stores the card in
  \<^verbatim>\<open>*out_card\<close> only when it succeeds.
\<close>

definition mountSDCARD :: "esp_err_t \<Rightarrow> esp_err_t \<Rightarrow> sys \<Rightarrow> esp_err_t \<times> sys" where
  "mountSDCARD bus_ret mount_ret s =
     (if bus_ret \<noteq> ESP_OK then (bus_ret, s)
      else if mount_ret \<noteq> ESP_OK then (mount_ret, s)
      else (mount_ret, s\<lparr>sdcard := Some Sdmmc_card\<rparr>))"

section \<open>Boot sequence (main.cpp, app_main)\<close>

text \<open>
  The statics as the C++ runtime initialises them, before \<^verbatim>\<open>app_main\<close> runs; the clock is
  the only input.
\<close>

definition initial_state :: "(nat \<Rightarrow> string) \<Rightarrow> sys" where
  "initial_state clk =
     \<lparr>log_textarea = None, status_label = None, ip_label = None, server_switch = None,
      spinner = None, ftp_operation_in_progress = False, log_buffer = [],
      log_line_count = 0, ftp_control_callback = None, ftpServer = None,
      wifi_connected_bit = False, wifi_fail_bit = False, s_retry_num = 0,
      screen_created = False, sdcard_was_present = False, sdcard = None, wl_handle = 0,
      clock = clk, clock_reads = 0, calls = []\<rparr>"

text \<open>
  What the environment answers during boot: the two mounts, whether an
  \<^verbatim>\<open>ESP_ERROR_CHECK\<close> of \<^verbatim>\<open>wifi_init\<close> passes, the WiFi events delivered before
  \<^verbatim>\<open>xEventGroupWaitBits\<close> returns (by a bit or by its 30 s timeout), and whether
  \<^verbatim>\<open>new FtpServer::Server()\<close> yields an object.
\<close>

record boot_env =
  flash_mount_ret :: esp_err_t
  flash_handle :: int
  spi_bus_ret :: esp_err_t
  sdspi_mount_ret :: esp_err_t
  wifi_init_ok :: bool
  wifi_evs :: "wifi_event list"
  ftp_allocated :: bool

datatype boot_outcome = No_storage | Wifi_init_abort | Ftp_alloc_failed | Main_loop_entered

text \<open>
  Phase 4 up to the test of \<^verbatim>\<open>has_storage\<close>: the local starts out false and is set by
  either mount.
\<close>

definition storage_phase :: "boot_env \<Rightarrow> sys \<Rightarrow> bool \<times> sys" where
  "storage_phase env s =
     (let s1 = addLog (Some ''Initializing storage...'') s;
          has_storage = False;
          s2 = s1\<lparr>wl_handle := mountFATFS (flash_mount_ret env) (flash_handle env)\<rparr>;
          has_storage = (if wl_handle s2 \<ge> 0 then True else has_storage);
          (ret, s3) = mountSDCARD (spi_bus_ret env) (sdspi_mount_ret env) s2;
          has_storage = (if ret = ESP_OK then True else has_storage)
      in (has_storage, s3))"

text \<open>
  \<^verbatim>\<open>wifi_init\<close>: the event group is created with no bit set; the first driver call is
  \<^verbatim>\<open>esp_netif_init\<close>, the last \<^verbatim>\<open>esp_wifi_start\<close>. A failing \<^verbatim>\<open>ESP_ERROR_CHECK\<close> aborts
  the firmware; the result's first component tells whether the function returned.
\<close>

definition wifi_init :: "bool \<Rightarrow> sys \<Rightarrow> bool \<times> sys" where
  "wifi_init ok s =
     (let s1 = ext_call Esp_netif_init (s\<lparr>wifi_connected_bit := False, wifi_fail_bit := False\<rparr>)
      in if ok then (True, ext_call Esp_wifi_start s1) else (False, s1))"

text \<open>Phases 5 to 8, up to the entry of the monitoring loop.\<close>

definition later_phases :: "boot_env \<Rightarrow> sys \<Rightarrow> boot_outcome \<times> sys" where
  "later_phases env s =
     (let s1 = addLog (Some ''Connecting to WiFi...'') s;
          (returned, s2) = wifi_init (wifi_init_ok env) s1
      in if \<not> returned then (Wifi_init_abort, s2)
         else
           let s3 = wifi_events (wifi_evs env) s2;
               connected = wifi_connected_bit s3;
               s4 = (if connected then addLog (Some ''#00ff00 [OK] WiFi connected#'') s3
                     else if wifi_fail_bit s3 then addLog (Some ''#ff0000 [!!] WiFi failed#'') s3
                     else addLog (Some ''#ff0000 [!!] WiFi timeout#'') s3);
               s5 = (if connected then ext_call Esp_sntp_init (addLog (Some ''Syncing time...'') s4)
                     else s4);
               s6 = ext_call Ftp_new s5
           in if \<not> ftp_allocated env then
                (Ftp_alloc_failed, addLog (Some ''#ff0000 [!!] ERROR: FTP alloc failed#'') s6)
              else
                let s7 = s6\<lparr>ftpServer := Some FtpServer_instance\<rparr>;
                    s8 = addLog (Some ''#00ff00 [OK] FTP server ready#'') s7;
                    s9 = update_status ''Stopped'' s8;
                    s10 = addLog (Some ''#00ff00 [OK] === System Ready ===#'') s9
                in (Main_loop_entered, s10))"

text \<open>
  \<^verbatim>\<open>app_main\<close> from phase 3 on (phases 1 and 2 bring up NVS and the display and touch
  none of the statics). \<^verbatim>\<open>start_time_update_timer\<close> and \<^verbatim>\<open>log_storage_info\<close> only create
  the clock timer and write to the serial console; they are left out.
\<close>

definition app_main :: "boot_env \<Rightarrow> sys \<Rightarrow> boot_outcome \<times> sys" where
  "app_main env s =
     (let s1 = create_screen_ftp s;
          s2 = s1\<lparr>screen_created := True\<rparr>;
          s3 = register_ftp_control_callback (Some Ftp_control_handler) s2;
          s4 = addLog (Some ''=== System Starting ==='') s3;
          (has_storage, s5) = storage_phase env s4
      in if \<not> has_storage then
           (No_storage, addLog (Some ''#ff0000 [!!] No storage - cannot start FTP#'') s5)
         else later_phases env s5)"

section \<open>Monitoring loop (main.cpp, app_main phase 8)\<close>

text \<open>
  The enumerators of \<^verbatim>\<open>FtpServer::Server\<close> the loop switches on. The header declaring
  them is not among the sources, so their values are a parameter.
\<close>

record ftp_ste =
  E_FTP_STE_DISABLED :: int
  E_FTP_STE_READY :: int
  E_FTP_STE_CONNECTED :: int
  E_FTP_STE_CONTINUE_FILE_TX :: int
  E_FTP_STE_CONTINUE_FILE_RX :: int
  E_FTP_STE_END_TRANSFER :: int

text \<open>The locals of the loop: \<^verbatim>\<open>int last_ftp_state\<close> and \<^verbatim>\<open>uint32_t iteration\<close>.\<close>

record loop_locals =
  last_ftp_state :: int
  iteration :: "32 word"

definition loop_init :: loop_locals where
  "loop_init = \<lparr>last_ftp_state = - 1, iteration = 0\<rparr>"

text \<open>
  The \<^verbatim>\<open>switch (ftp_state & 0xFF)\<close>: the log line and the status text of the matching
  case, \<open>None\<close> when no case matches (the switch has no default). \<open>ftp_state\<close> is a C
  \<^verbatim>\<open>int\<close>; \<open>AND\<close> on \<open>int\<close> is the two's complement one, so the low byte is read as in C
  for negative values too.
\<close>

definition ftp_state_update :: "ftp_ste \<Rightarrow> int \<Rightarrow> (string \<times> string) option" where
  "ftp_state_update E ftp_state =
     (let x = ftp_state AND 0xFF in
      if x = E_FTP_STE_DISABLED E then Some (''#ffaa00 [--] FTP: Disabled#'', ''Disabled'')
      else if x = E_FTP_STE_READY E then Some (''#00ff00 [OK] FTP: Ready#'', ''Ready'')
      else if x = E_FTP_STE_CONNECTED E then
        Some (''#00ff00 [**] FTP Client Connected#'', ''Client Connected'')
      else if x = E_FTP_STE_CONTINUE_FILE_TX E then
        Some (''#00ffff [>>] Sending file...#'', ''Sending File'')
      else if x = E_FTP_STE_CONTINUE_FILE_RX E then
        Some (''#00ffff [<<] Receiving file...#'', ''Receiving File'')
      else if x = E_FTP_STE_END_TRANSFER E then
        Some (''#00ff00 [OK] Transfer complete#'', ''Ready'')
      else None)"

text \<open>
  First half of the loop body: \<open>ftp_state\<close> is what \<^verbatim>\<open>getState()\<close> returns on this tick.
\<close>

definition ftp_state_poll :: "ftp_ste \<Rightarrow> int \<Rightarrow> loop_locals \<Rightarrow> sys \<Rightarrow> loop_locals \<times> sys" where
  "ftp_state_poll E ftp_state L s =
     (let s1 = ext_call Ftp_getState s in
      if ftp_state \<noteq> last_ftp_state L then
        (L\<lparr>last_ftp_state := ftp_state\<rparr>,
         case ftp_state_update E ftp_state of
           Some (msg, status) \<Rightarrow> update_status status (addLog (Some msg) s1)
         | None \<Rightarrow> s1)
      else (L, s1))"

text \<open>
  Second half: \<open>sd_ret\<close> is what \<^verbatim>\<open>sdmmc_get_status\<close> returns if it is called on this tick.
\<close>

definition sd_liveness_check :: "32 word \<Rightarrow> esp_err_t \<Rightarrow> sys \<Rightarrow> sys" where
  "sd_liveness_check iter sd_ret s =
     (if iter mod 10 = 0 \<and> sdcard s \<noteq> None then
        let s1 = ext_call Sdmmc_get_status s in
        if sd_ret \<noteq> ESP_OK \<and> sdcard_was_present s1 then
          (addLog (Some ''#ff8800 [!!] SD Card removed!#'') s1)\<lparr>sdcard_was_present := False\<rparr>
        else if sd_ret = ESP_OK \<and> \<not> sdcard_was_present s1 then
          (addLog (Some ''#00ff00 [OK] SD Card accessible#'') s1)\<lparr>sdcard_was_present := True\<rparr>
        else s1
      else s)"

text \<open>One pass of the \<^verbatim>\<open>while (1)\<close> body, and the loop over the inputs of successive passes.\<close>

definition monitor_tick ::
    "ftp_ste \<Rightarrow> int \<times> esp_err_t \<Rightarrow> loop_locals \<times> sys \<Rightarrow> loop_locals \<times> sys" where
  "monitor_tick E inp Ls =
     (let (L1, s1) = ftp_state_poll E (fst inp) (fst Ls) (snd Ls);
          s2 = sd_liveness_check (iteration L1) (snd inp) s1
      in (L1\<lparr>iteration := iteration L1 + 1\<rparr>, s2))"


text \<open>Counting the status updates and the log updates that reached the screen.\<close>

fun is_status_call :: "call \<Rightarrow> bool" where
  "is_status_call (Lv_label_set_text_status txt) = True"
| "is_status_call c = False"

fun is_log_call :: "call \<Rightarrow> bool" where
  "is_log_call (Lv_textarea_set_text txt) = True"
| "is_log_call c = False"

definition status_updates :: "sys \<Rightarrow> nat" where
  "status_updates s = length (filter is_status_call (calls s))"

definition log_updates :: "sys \<Rightarrow> nat" where
  "log_updates s = length (filter is_log_call (calls s))"

section \<open>Notions used in the statements\<close>

text \<open>
  A well-formed line of the log: not cut by \<^verbatim>\<open>snprintf\<close>, and ending in its only newline.
  \<open>ring_holds s ls\<close> says that the buffer is the concatenation of the lines \<open>ls\<close>, each
  well-formed, and that \<^verbatim>\<open>log_line_count\<close> counts them. \<open>newest\<close> keeps the last
  \<open>MAX_LOG_LINES\<close> lines of a list, \<open>kept\<close> the lines that stay when one more is added, and
  \<open>log_lines clk n ms\<close> are the lines \<^verbatim>\<open>addLog\<close> formats for the messages \<open>ms\<close> when the
  clock has been read \<open>n\<close> times before.
\<close>

definition good_line :: "string \<Rightarrow> bool" where
  "good_line l = (l \<noteq> [] \<and> last l = newline \<and> newline \<notin> set (butlast l) \<and> length l < MAX_LINE_LENGTH)"

definition ring_holds :: "sys \<Rightarrow> string list \<Rightarrow> bool" where
  "ring_holds s ls =
     (log_buffer s = concat ls \<and> log_line_count s = int (length ls)
      \<and> length ls \<le> MAX_LOG_LINES \<and> list_all good_line ls)"

definition newest :: "string list \<Rightarrow> string list" where
  "newest ls = drop (length ls - MAX_LOG_LINES) ls"

definition kept :: "string list \<Rightarrow> string list" where
  "kept ls = (if length ls < MAX_LOG_LINES then ls else tl ls)"

fun log_lines :: "(nat \<Rightarrow> string) \<Rightarrow> nat \<Rightarrow> string list \<Rightarrow> string list" where
  "log_lines clk n [] = []"
| "log_lines clk n (m # ms) = snprintf_log_line (clk n) m # log_lines clk (Suc n) ms"

text \<open>
  The two mounts of phase 4 as the environment decides them: the flash mount succeeds when
  the driver returns \<^verbatim>\<open>ESP_OK\<close> with a valid (non-negative) handle, the SD mount when both
  driver calls return \<^verbatim>\<open>ESP_OK\<close>. \<open>phase3\<close> is the state of \<^verbatim>\<open>app_main\<close> at the end of
  phase 3.
\<close>

definition flash_ok :: "boot_env \<Rightarrow> bool" where
  "flash_ok env = (flash_mount_ret env = ESP_OK \<and> 0 \<le> flash_handle env)"

definition sd_ok :: "boot_env \<Rightarrow> bool" where
  "sd_ok env = (spi_bus_ret env = ESP_OK \<and> sdspi_mount_ret env = ESP_OK)"

definition phase3 :: "sys \<Rightarrow> sys" where
  "phase3 s =
     addLog (Some ''=== System Starting ==='')
       (register_ftp_control_callback (Some Ftp_control_handler)
         ((create_screen_ftp s)\<lparr>screen_created := True\<rparr>))"

text \<open>
  The values of \<^verbatim>\<open>ftp_state & 0xFF\<close> that have a case in the switch, and the number of
  \<^verbatim>\<open>sdmmc_get_status\<close> calls made so far.
\<close>

definition mapped_states :: "ftp_ste \<Rightarrow> int set" where
  "mapped_states E =
     {E_FTP_STE_DISABLED E, E_FTP_STE_READY E, E_FTP_STE_CONNECTED E,
      E_FTP_STE_CONTINUE_FILE_TX E, E_FTP_STE_CONTINUE_FILE_RX E, E_FTP_STE_END_TRANSFER E}"

definition sd_checks :: "sys \<Rightarrow> nat" where
  "sd_checks s = count_list (calls s) Sdmmc_get_status"

text \<open>
  The number of newline bytes in a buffer, that is, of the lines that end in it; and the
  statement that \<^verbatim>\<open>log_line_count\<close> is not below it.
\<close>

definition nl_count :: "string \<Rightarrow> nat" where
  "nl_count buf = count_list buf newline"

definition phys_inv :: "sys \<Rightarrow> bool" where
  "phys_inv s = (0 \<le> log_line_count s \<and> nl_count (log_buffer s) \<le> nat (log_line_count s))"

text \<open>A message pointer that is null or whose text holds no newline byte.\<close>

definition no_newline :: "string option \<Rightarrow> bool" where
  "no_newline m = (case m of None \<Rightarrow> True | Some msg \<Rightarrow> newline \<notin> set msg)"

section \<open>Example inputs\<close>

text \<open>
  A clock that always reads noon; the state of \<^verbatim>\<open>app_main\<close> once phase 3 has created the
  screen and registered the control callback (no FTP server object yet); the same state
  with the server object of phase 7; and \<open>n\<close> consecutive disconnect events.
\<close>

definition noon_clock :: "nat \<Rightarrow> string" where
  "noon_clock n = ''12:00:00''"

definition booting_state :: sys where
  "booting_state =
     register_ftp_control_callback (Some Ftp_control_handler)
       ((create_screen_ftp (initial_state noon_clock))\<lparr>screen_created := True\<rparr>)"

definition serving_state :: sys where
  "serving_state = booting_state\<lparr>ftpServer := Some FtpServer_instance\<rparr>"

definition disconnects :: "nat \<Rightarrow> wifi_event list" where
  "disconnects n = replicate n WIFI_EVENT_STA_DISCONNECTED"

text \<open>
  Three boot environments: only the internal flash mounts, only the SD card mounts,
  neither mounts.
\<close>

definition flash_only :: boot_env where
  "flash_only = \<lparr>flash_mount_ret = 0, flash_handle = 0, spi_bus_ret = 0, sdspi_mount_ret = - 1,
     wifi_init_ok = True, wifi_evs = [], ftp_allocated = True\<rparr>"

definition sd_only :: boot_env where
  "sd_only = \<lparr>flash_mount_ret = - 1, flash_handle = 0, spi_bus_ret = 0, sdspi_mount_ret = 0,
     wifi_init_ok = True, wifi_evs = [], ftp_allocated = True\<rparr>"

definition no_storage :: boot_env where
  "no_storage = \<lparr>flash_mount_ret = - 1, flash_handle = 0, spi_bus_ret = 0, sdspi_mount_ret = - 1,
     wifi_init_ok = True, wifi_evs = [], ftp_allocated = True\<rparr>"

text \<open>
  An assignment of the six enumerators (the switch's cases numbered in their order), and the
  serving state with an SD card mounted at boot.
\<close>

definition ftp_ste_example :: ftp_ste where
  "ftp_ste_example =
     \<lparr>E_FTP_STE_DISABLED = 0, E_FTP_STE_READY = 1, E_FTP_STE_CONNECTED = 2,
      E_FTP_STE_CONTINUE_FILE_TX = 3, E_FTP_STE_CONTINUE_FILE_RX = 4,
      E_FTP_STE_END_TRANSFER = 5\<rparr>"


text \<open>
  Fifty-one messages of 10 bytes; a message of 5001 bytes; and the state after one short
  message has been logged on a fresh screen.
\<close>

definition example_msgs :: "string list" where
  "example_msgs = ''first-line'' # replicate 50 ''later-line''"

text \<open>A message of 60 newline bytes.\<close>

definition multiline_msg :: string where
  "multiline_msg = replicate 60 newline"

definition long_msg :: string where
  "long_msg = replicate 5001 (CHR ''x'')"

definition one_line_state :: sys where
  "one_line_state = addLog (Some ''a'') (create_screen_ftp (initial_state noon_clock))"

section \<open>Bounds of the log buffer\<close>

lemma evict_for_space_bounds:
  "evict_for_space buf cnt cur ll = (b, c) \<Longrightarrow>
     length b \<le> length buf \<and> c \<le> cnt \<and> (0 \<le> cnt \<longrightarrow> 0 \<le> c)"
proof (induction buf cnt cur ll arbitrary: b c rule: evict_for_space.induct)
  case (1 buf cnt cur ll)
  show ?case
  proof (cases "cur + ll > max_len \<and> cnt > 0")
    case False
    with "1.prems" show ?thesis by (auto simp: evict_for_space.simps[of buf])
  next
    case True
    show ?thesis
    proof (cases "strchr buf newline")
      case None
      with True "1.prems" show ?thesis by (auto simp: evict_for_space.simps[of buf])
    next
      case (Some i)
      with True "1.prems"
      have "evict_for_space (drop (i + 1) buf) (cnt - 1) (cur - (i + 1)) ll = (b, c)"
        by (simp add: evict_for_space.simps[of buf])
      from "1.IH"[OF True Some this] True show ?thesis by auto
    qed
  qed
qed

lemma enforce_line_limit_bounds:
  "enforce_line_limit buf cnt = (b, c) \<Longrightarrow>
     length b \<le> length buf \<and> c < int MAX_LOG_LINES \<and> (0 \<le> cnt \<longrightarrow> 0 \<le> c)"
proof (induction buf cnt arbitrary: b c rule: enforce_line_limit.induct)
  case (1 buf cnt)
  show ?case
  proof (cases "cnt \<ge> int MAX_LOG_LINES")
    case False
    with "1.prems" show ?thesis by (auto simp: enforce_line_limit.simps[of buf])
  next
    case True
    show ?thesis
    proof (cases "strchr buf newline")
      case None
      with True "1.prems" show ?thesis
        by (auto simp: MAX_LOG_LINES_def enforce_line_limit.simps[of buf])
    next
      case (Some i)
      with True "1.prems"
      have "enforce_line_limit (drop (i + 1) buf) (cnt - 1) = (b, c)"
        by (simp add: enforce_line_limit.simps[of buf])
      from "1.IH"[OF True Some this] True show ?thesis
        by (auto simp: MAX_LOG_LINES_def)
    qed
  qed
qed

lemma append_line_bounds:
  "append_line buf cnt l = (b, c) \<Longrightarrow> 0 \<le> cnt \<Longrightarrow> cnt < int MAX_LOG_LINES \<Longrightarrow>
     length b \<le> max_len \<and> 0 \<le> c \<and> c \<le> int MAX_LOG_LINES"
  by (auto simp: append_line_def Let_def MAX_LOG_LINES_def split: if_splits)

lemma addLog_unfold:
  assumes "log_textarea s = Some t" and "m = Some msg"
    and "l = snprintf_log_line (clock s (clock_reads s)) msg"
    and "evict_for_space (log_buffer s) (log_line_count s) (length (log_buffer s)) (length l)
           = (b1, c1)"
    and "enforce_line_limit b1 c1 = (b2, c2)"
    and "append_line b2 c2 l = (b3, c3)"
  shows "addLog m s =
    s\<lparr>clock_reads := clock_reads s + 1, log_buffer := b3, log_line_count := c3,
      log_textarea := Some b3,
      calls := calls s @ [Lv_textarea_set_text b3, Lv_obj_scroll_to_y]\<rparr>"
  using assms unfolding addLog_def by (simp add: Let_def)

lemma addLog_inv: "log_ring_inv s \<Longrightarrow> log_ring_inv (addLog m s)"
proof (cases "log_textarea s = None \<or> m = None")
  case True
  assume "log_ring_inv s"
  with True show ?thesis by (simp add: addLog_def)
next
  case False
  assume inv: "log_ring_inv s"
  from False obtain t msg where ta: "log_textarea s = Some t" and m: "m = Some msg"
    by auto
  define l where "l = snprintf_log_line (clock s (clock_reads s)) msg"
  obtain b1 c1 where e1:
    "evict_for_space (log_buffer s) (log_line_count s) (length (log_buffer s)) (length l) = (b1, c1)"
    by (cases "evict_for_space (log_buffer s) (log_line_count s) (length (log_buffer s)) (length l)")
  obtain b2 c2 where e2: "enforce_line_limit b1 c1 = (b2, c2)"
    by (cases "enforce_line_limit b1 c1")
  obtain b3 c3 where e3: "append_line b2 c2 l = (b3, c3)"
    by (cases "append_line b2 c2 l")
  from inv have "0 \<le> log_line_count s" by (simp add: log_ring_inv_def)
  with evict_for_space_bounds[OF e1] have "0 \<le> c1" by simp
  with enforce_line_limit_bounds[OF e2] have "0 \<le> c2" "c2 < int MAX_LOG_LINES" by simp_all
  from append_line_bounds[OF e3 this]
  have "length b3 \<le> max_len \<and> 0 \<le> c3 \<and> c3 \<le> int MAX_LOG_LINES" .
  then show ?thesis
    by (simp add: addLog_unfold[OF ta m l_def e1 e2 e3] log_ring_inv_def)
qed

lemma addLog_seq_inv: "log_ring_inv s \<Longrightarrow> log_ring_inv (addLog_seq ms s)"
  by (induction ms arbitrary: s) (simp_all add: addLog_inv)

lemma create_screen_ftp_inv: "log_ring_inv (create_screen_ftp s)"
  by (simp add: log_ring_inv_def create_screen_ftp_def)

section \<open>Frame properties\<close>

lemma addLog_frame [simp]:
  "status_label (addLog m s) = status_label s"
  "ip_label (addLog m s) = ip_label s"
  "server_switch (addLog m s) = server_switch s"
  "spinner (addLog m s) = spinner s"
  "ftp_operation_in_progress (addLog m s) = ftp_operation_in_progress s"
  "ftp_control_callback (addLog m s) = ftp_control_callback s"
  "ftpServer (addLog m s) = ftpServer s"
  "wifi_connected_bit (addLog m s) = wifi_connected_bit s"
  "wifi_fail_bit (addLog m s) = wifi_fail_bit s"
  "s_retry_num (addLog m s) = s_retry_num s"
  "screen_created (addLog m s) = screen_created s"
  "sdcard_was_present (addLog m s) = sdcard_was_present s"
  "sdcard (addLog m s) = sdcard s"
  "wl_handle (addLog m s) = wl_handle s"
  "clock (addLog m s) = clock s"
  by (simp_all add: addLog_def Let_def split: prod.splits)

lemma addLog_textarea_None [simp]:
  "log_textarea (addLog m s) = None \<longleftrightarrow> log_textarea s = None"
  by (simp add: addLog_def Let_def split: prod.splits)

lemma addLog_calls:
  "calls (addLog m s) =
     calls s @ (if log_textarea s = None \<or> m = None then []
                else [Lv_textarea_set_text (log_buffer (addLog m s)), Lv_obj_scroll_to_y])"
  by (simp add: addLog_def Let_def split: prod.splits)

lemma update_status_frame [simp]:
  "log_textarea (update_status st s) = log_textarea s"
  "ip_label (update_status st s) = ip_label s"
  "server_switch (update_status st s) = server_switch s"
  "ftp_operation_in_progress (update_status st s) = ftp_operation_in_progress s"
  "log_buffer (update_status st s) = log_buffer s"
  "log_line_count (update_status st s) = log_line_count s"
  "ftp_control_callback (update_status st s) = ftp_control_callback s"
  "ftpServer (update_status st s) = ftpServer s"
  "wifi_connected_bit (update_status st s) = wifi_connected_bit s"
  "wifi_fail_bit (update_status st s) = wifi_fail_bit s"
  "s_retry_num (update_status st s) = s_retry_num s"
  "screen_created (update_status st s) = screen_created s"
  "sdcard_was_present (update_status st s) = sdcard_was_present s"
  "sdcard (update_status st s) = sdcard s"
  "wl_handle (update_status st s) = wl_handle s"
  "clock (update_status st s) = clock s"
  "clock_reads (update_status st s) = clock_reads s"
  by (simp_all add: update_status_def ext_call_def Let_def)

lemma update_status_label:
  "status_label (update_status st s) = (if status_label s = None then None else Some st)"
  by (simp add: update_status_def ext_call_def Let_def)

lemma update_status_calls:
  "calls (update_status st s) =
     calls s @ (if status_label s = None then [] else [Lv_label_set_text_status st])"
  by (simp add: update_status_def ext_call_def Let_def)

section \<open>Null guards, toggle guard and in-flight flag\<close>

text \<open>
  Claim C9. \<^verbatim>\<open>addLog\<close> called with a null message, or before \<^verbatim>\<open>create_screen_ftp\<close> has
  set \<^verbatim>\<open>log_textarea\<close>, returns at once: the whole state (log buffer, line count,
  widgets, calls made) is as before. \<^verbatim>\<open>safe_log\<close> leaves the state as it is while
  \<^verbatim>\<open>screen_created\<close> is false.
\<close>

theorem addLog_null_guard:
  "(log_textarea s = None \<or> message = None \<longrightarrow> addLog message s = s)
   \<and> (\<not> screen_created s \<longrightarrow> safe_log message s = s)"
  by (simp add: addLog_def safe_log_def)

theorem addLog_null_guard_witness:
  "log_textarea (initial_state noon_clock) = None
   \<and> addLog (Some ''boot'') (initial_state noon_clock) = initial_state noon_clock
   \<and> addLog None booting_state = booting_state
   \<and> \<not> screen_created (initial_state noon_clock)
   \<and> safe_log (Some ''boot'') (initial_state noon_clock) = initial_state noon_clock"
  using addLog_null_guard[of "initial_state noon_clock" "Some ''boot''"]
    addLog_null_guard[of booting_state None]
  by (simp add: initial_state_def)

lemma count_list_append [simp]:
  "count_list (xs @ ys) c = count_list xs c + count_list ys c"
  by (induction xs) simp_all

lemma start_stop_addLog [simp]: "start_stop_calls (addLog m s) = start_stop_calls s"
  by (simp add: start_stop_calls_def addLog_calls)

lemma start_stop_update_status [simp]:
  "start_stop_calls (update_status st s) = start_stop_calls s"
  by (simp add: start_stop_calls_def update_status_calls)

lemma toggle_accepted_frame [simp]:
  "ftp_operation_in_progress (toggle_accepted c s)"
  "ftpServer (toggle_accepted c s) = ftpServer s"
  "ftp_control_callback (toggle_accepted c s) = ftp_control_callback s"
  "server_switch (toggle_accepted c s) = server_switch s"
  "start_stop_calls (toggle_accepted c s) = start_stop_calls s"
  by (simp_all add: toggle_accepted_def Let_def start_stop_calls_def addLog_calls update_status_calls)

lemma toggle_accepted_status:
  "status_label s = Some t \<Longrightarrow>
   status_label (toggle_accepted c s) = Some (if c then ''Starting...'' else ''Stopping...'')"
  by (simp add: toggle_accepted_def Let_def update_status_label)

lemma ftp_control_handler_clears:
  "\<not> ftp_operation_in_progress (ftp_control_handler u e start s)"
  by (simp add: ftp_control_handler_def reset_ftp_operation_flag_def Let_def)

lemma ftp_control_handler_calls:
  "start_stop_calls (ftp_control_handler u e start s) =
     start_stop_calls s + (if ftpServer s = None then 0 else 1)"
  by (simp add: ftp_control_handler_def reset_ftp_operation_flag_def Let_def
      set_server_switch_state_def start_stop_calls_def addLog_calls update_status_calls ext_call_def)

lemma ftp_control_handler_which:
  "ftpServer s \<noteq> None \<Longrightarrow>
   count_list (calls (ftp_control_handler u e start s)) Ftp_start
     = count_list (calls s) Ftp_start + (if start then 1 else 0)
   \<and> count_list (calls (ftp_control_handler u e start s)) Ftp_stop
     = count_list (calls s) Ftp_stop + (if start then 0 else 1)"
  by (simp add: ftp_control_handler_def reset_ftp_operation_flag_def Let_def
      set_server_switch_state_def addLog_calls update_status_calls ext_call_def)

lemma user_toggle_rejected:
  "ftp_operation_in_progress s \<Longrightarrow> server_switch s = Some c \<Longrightarrow> user_toggle u e s = s"
  by (cases c) (simp_all add: user_toggle_def server_switch_event_cb_def)

lemma user_toggle_accepted:
  "\<not> ftp_operation_in_progress s \<Longrightarrow> server_switch s = Some c \<Longrightarrow>
   user_toggle u e s =
     (case ftp_control_callback s of
        Some Ftp_control_handler \<Rightarrow>
          ftp_control_handler u e (\<not> c) (toggle_accepted (\<not> c) (s\<lparr>server_switch := Some (\<not> c)\<rparr>))
      | None \<Rightarrow> toggle_accepted (\<not> c) (s\<lparr>server_switch := Some (\<not> c)\<rparr>))"
  by (cases c)
    (simp_all add: user_toggle_def server_switch_event_cb_def Let_def
      split: option.splits callback.splits)


text \<open>
  Claim C3, as amended. A user toggle that arrives while the in-flight flag is set changes
  nothing: the switch is back in the state it had before the toggle and neither
  \<^verbatim>\<open>start()\<close> nor \<^verbatim>\<open>stop()\<close> is called. A toggle that arrives while the flag is clear
  (callback registered) sets the flag and publishes the status "Starting..." or
  "Stopping..." before the control handler runs; the handler then calls \<^verbatim>\<open>start()\<close>
  (switch turned on) or \<^verbatim>\<open>stop()\<close> (switch turned off) exactly once if the server object
  exists, and calls neither if it does not.
\<close>

theorem toggle_single_flight:
  "server_switch s = Some c \<Longrightarrow>
   (ftp_operation_in_progress s \<longrightarrow>
      server_switch (user_toggle u e s) = Some c
      \<and> start_stop_calls (user_toggle u e s) = start_stop_calls s
      \<and> user_toggle u e s = s)
   \<and> (\<not> ftp_operation_in_progress s \<and> ftp_control_callback s = Some Ftp_control_handler
        \<and> status_label s = Some t \<longrightarrow>
      ftp_control_handler u e (\<not> c) (toggle_accepted (\<not> c) (s\<lparr>server_switch := Some (\<not> c)\<rparr>))
        = user_toggle u e s
      \<and> ftp_operation_in_progress (toggle_accepted (\<not> c) (s\<lparr>server_switch := Some (\<not> c)\<rparr>))
      \<and> status_label (toggle_accepted (\<not> c) (s\<lparr>server_switch := Some (\<not> c)\<rparr>))
          = Some (if c then ''Stopping...'' else ''Starting...'')
      \<and> (ftpServer s \<noteq> None \<longrightarrow>
            count_list (calls (user_toggle u e s)) Ftp_start
              = count_list (calls s) Ftp_start + (if c then 0 else 1)
            \<and> count_list (calls (user_toggle u e s)) Ftp_stop
              = count_list (calls s) Ftp_stop + (if c then 1 else 0))
      \<and> (ftpServer s = None \<longrightarrow> start_stop_calls (user_toggle u e s) = start_stop_calls s))"
proof -
  assume sw: "server_switch s = Some c"
  let ?s1 = "toggle_accepted (\<not> c) (s\<lparr>server_switch := Some (\<not> c)\<rparr>)"
  have rej: "ftp_operation_in_progress s \<longrightarrow>
      server_switch (user_toggle u e s) = Some c
      \<and> start_stop_calls (user_toggle u e s) = start_stop_calls s
      \<and> user_toggle u e s = s"
    using sw by (simp add: user_toggle_rejected)
  have acc: "\<not> ftp_operation_in_progress s \<and> ftp_control_callback s = Some Ftp_control_handler
        \<and> status_label s = Some t \<longrightarrow>
      ftp_control_handler u e (\<not> c) ?s1 = user_toggle u e s
      \<and> ftp_operation_in_progress ?s1
      \<and> status_label ?s1 = Some (if c then ''Stopping...'' else ''Starting...'')
      \<and> (ftpServer s \<noteq> None \<longrightarrow>
            count_list (calls (user_toggle u e s)) Ftp_start
              = count_list (calls s) Ftp_start + (if c then 0 else 1)
            \<and> count_list (calls (user_toggle u e s)) Ftp_stop
              = count_list (calls s) Ftp_stop + (if c then 1 else 0))
      \<and> (ftpServer s = None \<longrightarrow> start_stop_calls (user_toggle u e s) = start_stop_calls s)"
  proof (intro impI, elim conjE)
    assume nf: "\<not> ftp_operation_in_progress s"
      and cb: "ftp_control_callback s = Some Ftp_control_handler"
      and sl: "status_label s = Some t"
    have eq: "user_toggle u e s = ftp_control_handler u e (\<not> c) ?s1"
      using nf cb sw by (simp add: user_toggle_accepted)
    have st: "status_label ?s1 = Some (if c then ''Stopping...'' else ''Starting...'')"
      using sl toggle_accepted_status[of "s\<lparr>server_switch := Some (\<not> c)\<rparr>" t "\<not> c"] by simp
    have cnt: "count_list (calls ?s1) Ftp_start = count_list (calls s) Ftp_start"
      "count_list (calls ?s1) Ftp_stop = count_list (calls s) Ftp_stop"
      by (simp_all add: toggle_accepted_def Let_def addLog_calls update_status_calls)
    have some: "ftpServer s \<noteq> None \<longrightarrow>
            count_list (calls (user_toggle u e s)) Ftp_start
              = count_list (calls s) Ftp_start + (if c then 0 else 1)
            \<and> count_list (calls (user_toggle u e s)) Ftp_stop
              = count_list (calls s) Ftp_stop + (if c then 1 else 0)"
      using ftp_control_handler_which[of ?s1 u e "\<not> c"] cnt by (simp add: eq)
    have none: "ftpServer s = None \<longrightarrow> start_stop_calls (user_toggle u e s) = start_stop_calls s"
      by (simp add: eq ftp_control_handler_calls) (simp add: start_stop_calls_def)
    from eq st some none
    show "ftp_control_handler u e (\<not> c) ?s1 = user_toggle u e s
      \<and> ftp_operation_in_progress ?s1
      \<and> status_label ?s1 = Some (if c then ''Stopping...'' else ''Starting...'')
      \<and> (ftpServer s \<noteq> None \<longrightarrow>
            count_list (calls (user_toggle u e s)) Ftp_start
              = count_list (calls s) Ftp_start + (if c then 0 else 1)
            \<and> count_list (calls (user_toggle u e s)) Ftp_stop
              = count_list (calls s) Ftp_stop + (if c then 1 else 0))
      \<and> (ftpServer s = None \<longrightarrow> start_stop_calls (user_toggle u e s) = start_stop_calls s)"
      by (intro conjI) simp_all
  qed
  from rej acc show ?thesis by (rule conjI)
qed

lemma booting_state_fields:
  "\<not> ftp_operation_in_progress booting_state"
  "server_switch booting_state = Some False"
  "status_label booting_state = Some ''Disabled''"
  "ftp_control_callback booting_state = Some Ftp_control_handler"
  "ftpServer booting_state = None"
  "start_stop_calls booting_state = 0"
  by (simp_all add: booting_state_def register_ftp_control_callback_def
      create_screen_ftp_def initial_state_def start_stop_calls_def)

lemma serving_state_fields:
  "\<not> ftp_operation_in_progress serving_state"
  "server_switch serving_state = Some False"
  "status_label serving_state = Some ''Disabled''"
  "ftp_control_callback serving_state = Some Ftp_control_handler"
  "ftpServer serving_state = Some FtpServer_instance"
  "start_stop_calls serving_state = 0"
  using booting_state_fields
  by (simp_all add: serving_state_def start_stop_calls_def)

theorem toggle_single_flight_witness:
  "server_switch serving_state = Some False
   \<and> \<not> ftp_operation_in_progress serving_state
   \<and> count_list (calls (user_toggle ''ftp'' True serving_state)) Ftp_start
       = count_list (calls serving_state) Ftp_start + 1
   \<and> user_toggle ''ftp'' True (serving_state\<lparr>ftp_operation_in_progress := True\<rparr>)
       = serving_state\<lparr>ftp_operation_in_progress := True\<rparr>"
  using toggle_single_flight[where s = serving_state and c = False and u = "''ftp''"
      and e = True and t = "''Disabled''"]
    toggle_single_flight[where s = "serving_state\<lparr>ftp_operation_in_progress := True\<rparr>"
      and c = False and u = "''ftp''" and e = True and t = "''Disabled''"]
  by (simp add: serving_state_fields)

text \<open>
  Counterexample to claim C3 as stated, between phase 3 and phase 7 of the boot: the
  switch is live, the flag is clear, the toggle is accepted, and no \<^verbatim>\<open>start()\<close> is called
  because \<^verbatim>\<open>ftpServer\<close> is still null.
\<close>

theorem toggle_without_server_counterexample:
  "\<not> ftp_operation_in_progress booting_state
   \<and> start_stop_calls (user_toggle ''ftp'' True booting_state)
       \<noteq> start_stop_calls booting_state + 1"
proof -
  have "start_stop_calls (booting_state\<lparr>server_switch := Some True\<rparr>)
      = start_stop_calls booting_state"
    by (simp add: start_stop_calls_def)
  then show ?thesis
    by (simp add: user_toggle_accepted[OF booting_state_fields(1) booting_state_fields(2)]
        booting_state_fields ftp_control_handler_calls)
qed

text \<open>
  Claim C7. Whatever path \<^verbatim>\<open>ftp_control_handler\<close> takes (start with the service enabled
  afterwards, start with the service not enabled, stop, no server object), the in-flight
  flag is clear when it returns; hence an accepted toggle, which sets the flag and calls
  the registered handler, ends with the flag clear.
\<close>

theorem in_flight_always_cleared:
  "\<not> ftp_operation_in_progress (ftp_control_handler u e start s)
   \<and> (server_switch s = Some c \<and> \<not> ftp_operation_in_progress s
        \<and> ftp_control_callback s = Some Ftp_control_handler \<longrightarrow>
      \<not> ftp_operation_in_progress (user_toggle u e s))"
  by (simp add: ftp_control_handler_clears user_toggle_accepted)

theorem in_flight_always_cleared_witness:
  "server_switch serving_state = Some False
   \<and> \<not> ftp_operation_in_progress (user_toggle ''ftp'' True serving_state)
   \<and> \<not> ftp_operation_in_progress (user_toggle ''ftp'' False serving_state)
   \<and> \<not> ftp_operation_in_progress (ftp_control_handler ''ftp'' True False serving_state)
   \<and> \<not> ftp_operation_in_progress (user_toggle ''ftp'' True booting_state)"
  using in_flight_always_cleared[where s = serving_state and c = False and u = "''ftp''"
      and e = True and start = False]
    in_flight_always_cleared[where s = serving_state and c = False and u = "''ftp''"
      and e = False]
    in_flight_always_cleared[where s = booting_state and c = False and u = "''ftp''"
      and e = True]
  by (simp add: serving_state_fields booting_state_fields)

section \<open>WiFi retry budget\<close>

lemma connect_calls_addLog [simp]: "connect_calls (addLog m s) = connect_calls s"
  by (simp add: connect_calls_def addLog_calls)

lemma safe_log_frame [simp]:
  "s_retry_num (safe_log m s) = s_retry_num s"
  "wifi_fail_bit (safe_log m s) = wifi_fail_bit s"
  "connect_calls (safe_log m s) = connect_calls s"
  by (simp_all add: safe_log_def)

lemma disconnect_retry:
  "s_retry_num s < 10 \<Longrightarrow>
   s_retry_num (wifi_event_handler WIFI_EVENT_STA_DISCONNECTED s) = s_retry_num s + 1
   \<and> connect_calls (wifi_event_handler WIFI_EVENT_STA_DISCONNECTED s) = connect_calls s + 1
   \<and> wifi_fail_bit (wifi_event_handler WIFI_EVENT_STA_DISCONNECTED s) = wifi_fail_bit s"
  by (simp add: wifi_event_handler_def ext_call_def connect_calls_def)

lemma disconnect_give_up:
  "\<not> s_retry_num s < 10 \<Longrightarrow>
   s_retry_num (wifi_event_handler WIFI_EVENT_STA_DISCONNECTED s) = s_retry_num s
   \<and> connect_calls (wifi_event_handler WIFI_EVENT_STA_DISCONNECTED s) = connect_calls s
   \<and> wifi_fail_bit (wifi_event_handler WIFI_EVENT_STA_DISCONNECTED s)"
  by (simp add: wifi_event_handler_def) (simp add: connect_calls_def)

lemma disconnects_run:
  "0 \<le> s_retry_num s \<Longrightarrow> s_retry_num s \<le> 10 \<Longrightarrow>
   s_retry_num (wifi_events (disconnects n) s) = min (s_retry_num s + int n) 10
   \<and> connect_calls (wifi_events (disconnects n) s)
       = connect_calls s + min n (nat (10 - s_retry_num s))
   \<and> (wifi_fail_bit (wifi_events (disconnects n) s)
        \<longleftrightarrow> wifi_fail_bit s \<or> nat (10 - s_retry_num s) < n)"
proof (induction n arbitrary: s)
  case 0
  then show ?case by (simp add: disconnects_def)
next
  case (Suc n)
  let ?s' = "wifi_event_handler WIFI_EVENT_STA_DISCONNECTED s"
  have unf: "wifi_events (disconnects (Suc n)) s = wifi_events (disconnects n) ?s'"
    by (simp add: disconnects_def)
  show ?case
  proof (cases "s_retry_num s < 10")
    case True
    from disconnect_retry[OF True] Suc.prems True
    have "0 \<le> s_retry_num ?s'" "s_retry_num ?s' \<le> 10" by simp_all
    from Suc.IH[OF this] disconnect_retry[OF True] True Suc.prems
    show ?thesis unfolding unf by auto
  next
    case False
    from disconnect_give_up[OF False] Suc.prems False
    have "0 \<le> s_retry_num ?s'" "s_retry_num ?s' \<le> 10" by simp_all
    from Suc.IH[OF this] disconnect_give_up[OF False] False Suc.prems
    show ?thesis unfolding unf by auto
  qed
qed

text \<open>
  Claim C4, as amended. Starting from a retry counter of 0 (boot, or the last
  \<^verbatim>\<open>GOT_IP\<close>), \<open>n\<close> consecutive disconnect events set the failure bit exactly when
  \<open>n\<close> is at least 11 (unless it was set before); they issue \<open>min n 10\<close> calls of
  \<^verbatim>\<open>esp_wifi_connect\<close>, so that once 10 events have been handled no later disconnect
  event issues another one.
\<close>

theorem wifi_retry_budget:
  "s_retry_num s = 0 \<Longrightarrow>
   (wifi_fail_bit (wifi_events (disconnects n) s) \<longleftrightarrow> wifi_fail_bit s \<or> 11 \<le> n)
   \<and> connect_calls (wifi_events (disconnects n) s) = connect_calls s + min n 10
   \<and> (10 \<le> n \<longrightarrow>
        connect_calls (wifi_events (disconnects (n + k)) s)
          = connect_calls (wifi_events (disconnects n) s))"
proof -
  assume r: "s_retry_num s = 0"
  then have b: "0 \<le> s_retry_num s" "s_retry_num s \<le> 10" by simp_all
  from disconnects_run[OF b, of n] disconnects_run[OF b, of "n + k"] r
  show ?thesis by auto
qed

theorem wifi_retry_budget_witness:
  "s_retry_num (initial_state noon_clock) = 0
   \<and> wifi_fail_bit (wifi_events (disconnects 11) (initial_state noon_clock))
   \<and> connect_calls (wifi_events (disconnects 11) (initial_state noon_clock)) = 10
   \<and> connect_calls (wifi_events (disconnects (10 + 5)) (initial_state noon_clock))
       = connect_calls (wifi_events (disconnects 10) (initial_state noon_clock))"
  using wifi_retry_budget[where s = "initial_state noon_clock" and n = 11]
    wifi_retry_budget[where s = "initial_state noon_clock" and n = 10 and k = 5]
  by (simp add: initial_state_def connect_calls_def)

text \<open>
  Counterexample to claim C4 as stated: after exactly 10 disconnect events from boot all
  ten were answered by a reconnect and the failure bit is not set.
\<close>

theorem wifi_ten_disconnects_counterexample:
  "\<not> wifi_fail_bit (wifi_events (disconnects 10) (initial_state noon_clock))"
  using disconnects_run[where s = "initial_state noon_clock" and n = 10]
  by (simp add: initial_state_def)

section \<open>Storage fallback and boot\<close>

lemma addLog_calls_prefix: "prefix (calls s) (calls (addLog m s))"
  by (simp add: addLog_calls)

lemma update_status_calls_prefix: "prefix (calls s) (calls (update_status st s))"
  by (simp add: update_status_calls)

lemma update_ip_label_frame [simp]:
  "ftpServer (update_ip_label ip s) = ftpServer s"
  "sdcard (update_ip_label ip s) = sdcard s"
  "screen_created (update_ip_label ip s) = screen_created s"
  by (simp_all add: update_ip_label_def ext_call_def Let_def)

lemma update_ip_label_calls_prefix: "prefix (calls s) (calls (update_ip_label ip s))"
  by (simp add: update_ip_label_def ext_call_def Let_def)

lemma wifi_event_handler_frame [simp]:
  "ftpServer (wifi_event_handler ev s) = ftpServer s"
  "sdcard (wifi_event_handler ev s) = sdcard s"
  by (cases ev; simp add: wifi_event_handler_def ext_call_def safe_log_def Let_def)
    (cases ev; simp add: wifi_event_handler_def ext_call_def safe_log_def Let_def)

lemma wifi_event_handler_calls_prefix: "prefix (calls s) (calls (wifi_event_handler ev s))"
proof (cases ev)
  case (IP_EVENT_STA_GOT_IP ip)
  let ?s1 = "safe_log (Some (take 63 (''IP: '' @ ip))) s"
  let ?s2 = "if screen_created ?s1 then update_ip_label (take 63 ip) ?s1 else ?s1"
  have p1: "prefix (calls s) (calls ?s1)"
    by (simp add: safe_log_def addLog_calls_prefix)
  have p2: "prefix (calls ?s1) (calls ?s2)"
    by (simp add: update_ip_label_calls_prefix)
  have "calls (wifi_event_handler ev s) = calls ?s2"
    by (simp add: IP_EVENT_STA_GOT_IP wifi_event_handler_def Let_def)
  with prefix_order.trans[OF p1 p2] show ?thesis by simp
next
  case WIFI_EVENT_STA_START
  then show ?thesis by (simp add: wifi_event_handler_def ext_call_def)
next
  case WIFI_EVENT_STA_DISCONNECTED
  then show ?thesis
    by (simp add: wifi_event_handler_def ext_call_def safe_log_def addLog_calls)
next
  case WIFI_EVENT_OTHER
  then show ?thesis by (simp add: wifi_event_handler_def)
qed

lemma wifi_events_frame [simp]:
  "ftpServer (wifi_events evs s) = ftpServer s"
  "sdcard (wifi_events evs s) = sdcard s"
  by (induction evs arbitrary: s) simp_all

lemma wifi_events_calls_prefix: "prefix (calls s) (calls (wifi_events evs s))"
proof (induction evs arbitrary: s)
  case Nil
  show ?case by simp
next
  case (Cons ev evs)
  from prefix_order.trans[OF wifi_event_handler_calls_prefix[of s ev] Cons[of "wifi_event_handler ev s"]]
  show ?case by simp
qed

lemma mountFATFS_ok: "0 \<le> mountFATFS ret h \<longleftrightarrow> ret = ESP_OK \<and> 0 \<le> h"
  by (simp add: mountFATFS_def)

lemma mountSDCARD_result:
  "fst (mountSDCARD b m s) = ESP_OK \<longleftrightarrow> b = ESP_OK \<and> m = ESP_OK"
  "snd (mountSDCARD b m s) = (if b = ESP_OK \<and> m = ESP_OK then s\<lparr>sdcard := Some Sdmmc_card\<rparr> else s)"
  by (simp_all add: mountSDCARD_def)

lemma storage_phase_unfold:
  "storage_phase env s =
     (flash_ok env \<or> sd_ok env,
      snd (mountSDCARD (spi_bus_ret env) (sdspi_mount_ret env)
        ((addLog (Some ''Initializing storage...'') s)\<lparr>wl_handle := mountFATFS (flash_mount_ret env) (flash_handle env)\<rparr>)))"
  by (simp add: storage_phase_def Let_def mountFATFS_ok flash_ok_def sd_ok_def
      mountSDCARD_result split_beta)

lemma storage_phase_result:
  "fst (storage_phase env s) = (flash_ok env \<or> sd_ok env)"
  "calls (snd (storage_phase env s)) = calls (addLog (Some ''Initializing storage...'') s)"
  "ftpServer (snd (storage_phase env s)) = ftpServer s"
  "sdcard (snd (storage_phase env s)) = (if sd_ok env then Some Sdmmc_card else sdcard s)"
  "log_textarea (snd (storage_phase env s)) = None \<longleftrightarrow> log_textarea s = None"
  by (simp_all add: storage_phase_unfold mountSDCARD_result sd_ok_def)

lemma wifi_init_result:
  "ftpServer (snd (wifi_init ok s)) = ftpServer s"
  "sdcard (snd (wifi_init ok s)) = sdcard s"
  "Esp_netif_init \<in> set (calls (snd (wifi_init ok s)))"
  by (simp_all add: wifi_init_def ext_call_def Let_def)

lemma prefix_mem: "prefix xs ys \<Longrightarrow> x \<in> set xs \<Longrightarrow> x \<in> set ys"
  by (auto simp: prefix_def)

lemma later_phases_netif:
  "Esp_netif_init \<in> set (calls (snd (later_phases env s)))"
proof -
  let ?s1 = "addLog (Some ''Connecting to WiFi...'') s"
  let ?s2 = "snd (wifi_init (wifi_init_ok env) ?s1)"
  have m2: "Esp_netif_init \<in> set (calls ?s2)" by (rule wifi_init_result)
  show ?thesis
  proof (cases "wifi_init_ok env")
    case False
    then have "snd (later_phases env s) = ?s2"
      by (simp add: later_phases_def Let_def wifi_init_def)
    with m2 show ?thesis by simp
  next
    case True
    let ?s3 = "wifi_events (wifi_evs env) ?s2"
    have m3: "Esp_netif_init \<in> set (calls ?s3)"
      by (rule prefix_mem[OF wifi_events_calls_prefix m2])
    have "prefix (calls ?s3) (calls (snd (later_phases env s)))"
      using True
      by (simp add: later_phases_def Let_def wifi_init_def split_beta addLog_calls
          update_status_calls ext_call_def)
    from prefix_mem[OF this m3] show ?thesis .
  qed
qed

lemma later_phases_outcome: "fst (later_phases env s) \<noteq> No_storage"
  by (simp add: later_phases_def Let_def split_beta)

lemma addLog_no_driver_call [simp]:
  "Esp_netif_init \<in> set (calls (addLog m s)) \<longleftrightarrow> Esp_netif_init \<in> set (calls s)"
  "Ftp_new \<in> set (calls (addLog m s)) \<longleftrightarrow> Ftp_new \<in> set (calls s)"
  by (simp_all add: addLog_calls)

lemma phase3_fields:
  "calls (phase3 (initial_state clk)) =
     [Lv_label_set_text_status ''Disabled'', Lv_label_set_text_ip ''IP: Connecting...'',
      Lv_textarea_set_text [],
      Lv_textarea_set_text (log_buffer (phase3 (initial_state clk))), Lv_obj_scroll_to_y]"
  "ftpServer (phase3 (initial_state clk)) = None"
  "sdcard (phase3 (initial_state clk)) = None"
  by (simp_all add: phase3_def addLog_calls register_ftp_control_callback_def
      create_screen_ftp_def initial_state_def)

lemma app_main_unfold:
  "app_main env s =
     (if flash_ok env \<or> sd_ok env then later_phases env (snd (storage_phase env (phase3 s)))
      else (No_storage,
            addLog (Some ''#ff0000 [!!] No storage - cannot start FTP#'')
              (snd (storage_phase env (phase3 s)))))"
  by (simp add: app_main_def Let_def split_beta phase3_def storage_phase_result(1))

text \<open>
  Claim C5. In the storage phase \<^verbatim>\<open>has_storage\<close> is true exactly when the internal-flash
  mount or the SD-card mount succeeds. \<^verbatim>\<open>app_main\<close> returns with "no storage" exactly when
  both mounts fail; it then has made no call of \<^verbatim>\<open>wifi_init\<close> (whose first driver call is
  \<^verbatim>\<open>esp_netif_init\<close>), has not constructed the FTP server and leaves \<^verbatim>\<open>ftpServer\<close> null.
  When either mount succeeds the boot goes on into \<^verbatim>\<open>wifi_init\<close>.
\<close>

theorem storage_or_fallback:
  "(fst (storage_phase env s) \<longleftrightarrow> flash_ok env \<or> sd_ok env)
   \<and> (fst (app_main env (initial_state clk)) = No_storage \<longleftrightarrow> \<not> flash_ok env \<and> \<not> sd_ok env)
   \<and> (\<not> flash_ok env \<and> \<not> sd_ok env \<longrightarrow>
        Esp_netif_init \<notin> set (calls (snd (app_main env (initial_state clk))))
        \<and> Ftp_new \<notin> set (calls (snd (app_main env (initial_state clk))))
        \<and> ftpServer (snd (app_main env (initial_state clk))) = None)
   \<and> (flash_ok env \<or> sd_ok env \<longrightarrow>
        Esp_netif_init \<in> set (calls (snd (app_main env (initial_state clk)))))"
proof (intro conjI impI)
  show "fst (storage_phase env s) \<longleftrightarrow> flash_ok env \<or> sd_ok env"
    by (rule storage_phase_result)
  show "fst (app_main env (initial_state clk)) = No_storage \<longleftrightarrow> \<not> flash_ok env \<and> \<not> sd_ok env"
    using later_phases_outcome by (simp add: app_main_unfold)
next
  assume no: "\<not> flash_ok env \<and> \<not> sd_ok env"
  then have u: "snd (app_main env (initial_state clk)) =
      addLog (Some ''#ff0000 [!!] No storage - cannot start FTP#'')
        (snd (storage_phase env (phase3 (initial_state clk))))"
    by (simp add: app_main_unfold)
  show "Esp_netif_init \<notin> set (calls (snd (app_main env (initial_state clk))))"
    by (simp add: u storage_phase_result phase3_fields)
  show "Ftp_new \<notin> set (calls (snd (app_main env (initial_state clk))))"
    by (simp add: u storage_phase_result phase3_fields)
  show "ftpServer (snd (app_main env (initial_state clk))) = None"
    by (simp add: u storage_phase_result phase3_fields)
next
  assume "flash_ok env \<or> sd_ok env"
  then show "Esp_netif_init \<in> set (calls (snd (app_main env (initial_state clk))))"
    by (simp add: app_main_unfold later_phases_netif)
qed

theorem storage_or_fallback_witness:
  "\<not> flash_ok sd_only \<and> sd_ok sd_only
   \<and> fst (app_main sd_only (initial_state noon_clock)) \<noteq> No_storage
   \<and> Esp_netif_init \<in> set (calls (snd (app_main sd_only (initial_state noon_clock))))
   \<and> flash_ok flash_only \<and> \<not> sd_ok flash_only
   \<and> Esp_netif_init \<in> set (calls (snd (app_main flash_only (initial_state noon_clock))))
   \<and> \<not> flash_ok no_storage \<and> \<not> sd_ok no_storage
   \<and> fst (app_main no_storage (initial_state noon_clock)) = No_storage
   \<and> Esp_netif_init \<notin> set (calls (snd (app_main no_storage (initial_state noon_clock))))
   \<and> ftpServer (snd (app_main no_storage (initial_state noon_clock))) = None"
  using storage_or_fallback[where env = sd_only and clk = noon_clock]
    storage_or_fallback[where env = flash_only and clk = noon_clock]
    storage_or_fallback[where env = no_storage and clk = noon_clock]
  by (simp add: flash_ok_def sd_ok_def sd_only_def flash_only_def no_storage_def ESP_OK_def)

section \<open>Monitoring loop\<close>

lemma ftp_state_update_None:
  "ftp_state_update E v = None \<longleftrightarrow> v AND 0xFF \<notin> mapped_states E"
  by (simp add: ftp_state_update_def mapped_states_def Let_def)

lemma filter_status_addLog [simp]:
  "status_updates (addLog m s) = status_updates s"
  by (simp add: status_updates_def addLog_calls)

lemma log_updates_addLog:
  "log_updates (addLog m s) = log_updates s + (if log_textarea s = None \<or> m = None then 0 else 1)"
  by (simp add: log_updates_def addLog_calls)

lemma updates_update_status:
  "status_updates (update_status st s) = status_updates s + (if status_label s = None then 0 else 1)"
  "log_updates (update_status st s) = log_updates s"
  by (simp_all add: status_updates_def log_updates_def update_status_calls)

lemma updates_ext_call [simp]:
  "\<not> is_status_call c \<Longrightarrow> status_updates (ext_call c s) = status_updates s"
  "\<not> is_log_call c \<Longrightarrow> log_updates (ext_call c s) = log_updates s"
  by (simp_all add: status_updates_def log_updates_def ext_call_def)

lemma ext_call_frame [simp]:
  "log_textarea (ext_call c s) = log_textarea s"
  "status_label (ext_call c s) = status_label s"
  "sdcard (ext_call c s) = sdcard s"
  "sdcard_was_present (ext_call c s) = sdcard_was_present s"
  by (simp_all add: ext_call_def)

lemma ftp_state_poll_counts:
  "log_textarea s = Some t \<Longrightarrow> status_label s = Some st \<Longrightarrow>
   status_updates (snd (ftp_state_poll E v L s))
     = status_updates s + (if v \<noteq> last_ftp_state L \<and> v AND 0xFF \<in> mapped_states E then 1 else 0)
   \<and> log_updates (snd (ftp_state_poll E v L s))
     = log_updates s + (if v \<noteq> last_ftp_state L \<and> v AND 0xFF \<in> mapped_states E then 1 else 0)
   \<and> last_ftp_state (fst (ftp_state_poll E v L s)) = v"
proof (cases "ftp_state_update E v")
  case None
  assume "log_textarea s = Some t" "status_label s = Some st"
  with None show ?thesis
    using ftp_state_update_None[of E v]
    by (simp add: ftp_state_poll_def Let_def)
next
  case (Some p)
  assume a: "log_textarea s = Some t" "status_label s = Some st"
  obtain msg status where p: "p = (msg, status)" by (cases p)
  from Some have "v AND 0xFF \<in> mapped_states E"
    using ftp_state_update_None[of E v] by simp
  with Some p a show ?thesis
    by (simp add: ftp_state_poll_def Let_def updates_update_status log_updates_addLog)
qed

lemma ftp_state_poll_unchanged:
  "v = last_ftp_state L \<Longrightarrow> ftp_state_poll E v L s = (L, ext_call Ftp_getState s)"
  by (simp add: ftp_state_poll_def Let_def)

lemma status_updates_was_present [simp]:
  "status_updates (s\<lparr>sdcard_was_present := b\<rparr>) = status_updates s"
  by (simp add: status_updates_def)

lemma sd_liveness_check_status:
  "status_updates (sd_liveness_check it r s) = status_updates s"
  by (simp add: sd_liveness_check_def Let_def)

lemma monitor_tick_poll:
  "status_updates (snd (monitor_tick E (v, r) (L, s)))
     = status_updates (snd (ftp_state_poll E v L s))"
  "last_ftp_state (fst (monitor_tick E (v, r) (L, s)))
     = last_ftp_state (fst (ftp_state_poll E v L s))"
  by (simp_all add: monitor_tick_def Let_def split_beta sd_liveness_check_status)

text \<open>
  Claim C6, as amended. On a tick of the monitoring loop (screen created), the poll of
  \<^verbatim>\<open>getState()\<close> emits one status update and one log update if the state differs from
  \<^verbatim>\<open>last_ftp_state\<close> and its low byte is one of the six states the switch has a case for,
  and none otherwise; \<^verbatim>\<open>last_ftp_state\<close> then holds the polled state, so that polling the
  same state again emits nothing. The SD check of the same tick publishes no status, so
  the count of status updates holds for the whole tick.
\<close>

theorem ftp_state_poll_updates:
  "log_textarea s = Some t \<Longrightarrow> status_label s = Some st \<Longrightarrow>
   status_updates (snd (ftp_state_poll E v L s))
     = status_updates s + (if v \<noteq> last_ftp_state L \<and> v AND 0xFF \<in> mapped_states E then 1 else 0)
   \<and> log_updates (snd (ftp_state_poll E v L s))
     = log_updates s + (if v \<noteq> last_ftp_state L \<and> v AND 0xFF \<in> mapped_states E then 1 else 0)
   \<and> last_ftp_state (fst (ftp_state_poll E v L s)) = v
   \<and> status_updates (snd (ftp_state_poll E v (fst (ftp_state_poll E v L s)) (snd (ftp_state_poll E v L s))))
     = status_updates (snd (ftp_state_poll E v L s))
   \<and> log_updates (snd (ftp_state_poll E v (fst (ftp_state_poll E v L s)) (snd (ftp_state_poll E v L s))))
     = log_updates (snd (ftp_state_poll E v L s))
   \<and> status_updates (snd (monitor_tick E (v, r) (L, s)))
     = status_updates s + (if v \<noteq> last_ftp_state L \<and> v AND 0xFF \<in> mapped_states E then 1 else 0)
   \<and> last_ftp_state (fst (monitor_tick E (v, r) (L, s))) = v"
proof -
  assume a: "log_textarea s = Some t" "status_label s = Some st"
  note c = ftp_state_poll_counts[OF a, of E v L]
  from c have "v = last_ftp_state (fst (ftp_state_poll E v L s))" by simp
  from ftp_state_poll_unchanged[OF this, of E "snd (ftp_state_poll E v L s)"]
  have "snd (ftp_state_poll E v (fst (ftp_state_poll E v L s)) (snd (ftp_state_poll E v L s)))
      = ext_call Ftp_getState (snd (ftp_state_poll E v L s))" by simp
  then have "status_updates (snd (ftp_state_poll E v (fst (ftp_state_poll E v L s)) (snd (ftp_state_poll E v L s))))
     = status_updates (snd (ftp_state_poll E v L s))"
    "log_updates (snd (ftp_state_poll E v (fst (ftp_state_poll E v L s)) (snd (ftp_state_poll E v L s))))
     = log_updates (snd (ftp_state_poll E v L s))"
    by simp_all
  with c show ?thesis by (intro conjI) (simp_all add: monitor_tick_poll)
qed

lemma serving_state_widgets:
  "log_textarea serving_state = Some []"
  "sdcard serving_state = None"
  by (simp_all add: serving_state_def booting_state_def register_ftp_control_callback_def
      create_screen_ftp_def initial_state_def)

theorem ftp_state_poll_updates_witness:
  "log_textarea serving_state = Some [] \<and> status_label serving_state = Some ''Disabled''
   \<and> status_updates (snd (ftp_state_poll ftp_ste_example 1 loop_init serving_state))
       = status_updates serving_state + 1
   \<and> log_updates (snd (ftp_state_poll ftp_ste_example 1 loop_init serving_state))
       = log_updates serving_state + 1
   \<and> last_ftp_state (fst (ftp_state_poll ftp_ste_example 1 loop_init serving_state)) = 1"
  using ftp_state_poll_updates[where s = serving_state and t = "[]" and st = "''Disabled''"
      and E = ftp_ste_example and v = 1 and L = loop_init]
  by (simp add: serving_state_widgets serving_state_fields loop_init_def mapped_states_def
      ftp_ste_example_def)

text \<open>
  Counterexample to claim C6 as stated, a state whose low byte has no case in the switch:
  on the first tick (\<^verbatim>\<open>last_ftp_state\<close> is -1) the state 6 differs from the last observed one and
  nothing is emitted. The enumerators' values are not in the sources; whatever they are,
  lemma \<open>unmapped_state_exists\<close> below gives such a state.
\<close>

theorem unmapped_state_counterexample:
  "6 \<noteq> last_ftp_state loop_init
   \<and> status_updates (snd (ftp_state_poll ftp_ste_example 6 loop_init serving_state))
       = status_updates serving_state
   \<and> log_updates (snd (ftp_state_poll ftp_ste_example 6 loop_init serving_state))
       = log_updates serving_state"
  using ftp_state_poll_counts[where s = serving_state and t = "[]" and st = "''Disabled''"
      and E = ftp_ste_example and v = 6 and L = loop_init]
  by (simp add: serving_state_widgets serving_state_fields loop_init_def mapped_states_def
      ftp_ste_example_def)

lemma and_255: "(v::int) AND 0xFF = v mod 256"
proof -
  have "(0xFF::int) = mask 8" by (simp add: mask_eq_exp_minus_1)
  then have "v AND 0xFF = take_bit 8 v" by (simp only: take_bit_eq_mask)
  then show ?thesis by (simp add: take_bit_eq_mod)
qed

lemma unmapped_state_exists:
  "\<exists>v. v \<noteq> l \<and> ftp_state_update E v = None"
proof -
  let ?A = "insert l (mapped_states E)"
  have f: "finite ?A" by (simp add: mapped_states_def)
  have "card ?A \<le> 7" by (simp add: mapped_states_def card_insert_if)
  have "\<not> {0..7::int} \<subseteq> ?A"
  proof
    assume "{0..7::int} \<subseteq> ?A"
    from card_mono[OF f this] \<open>card ?A \<le> 7\<close> show False by simp
  qed
  then have "\<exists>v. v \<in> {0..7::int} \<and> v \<notin> ?A" by blast
  then obtain v where v: "0 \<le> v" "v \<le> 7" "v \<notin> ?A" by auto
  then have "v AND 0xFF = v" by (simp add: and_255)
  with v have "ftp_state_update E v = None" by (simp add: ftp_state_update_None)
  with v show ?thesis by auto
qed

lemma sd_checks_frame [simp]:
  "sd_checks (addLog m s) = sd_checks s"
  "sd_checks (update_status st s) = sd_checks s"
  "sd_checks (s\<lparr>sdcard_was_present := b\<rparr>) = sd_checks s"
  by (simp_all add: sd_checks_def addLog_calls update_status_calls)


lemma log_updates_was_present [simp]:
  "log_updates (s\<lparr>sdcard_was_present := b\<rparr>) = log_updates s"
  by (simp add: log_updates_def)



lemma ftp_state_poll_frame [simp]:
  "sdcard (snd (ftp_state_poll E v L s)) = sdcard s"
  "sdcard_was_present (snd (ftp_state_poll E v L s)) = sdcard_was_present s"
  "sd_checks (snd (ftp_state_poll E v L s)) = sd_checks s"
  "iteration (fst (ftp_state_poll E v L s)) = iteration L"
  by (simp_all add: ftp_state_poll_def Let_def split: option.splits)
    (simp_all add: sd_checks_def ext_call_def)




















section \<open>Order of the lines kept\<close>

lemma strchr_good_line:
  "good_line l \<Longrightarrow> strchr (l @ rest) newline = Some (length l - 1)"
proof -
  assume g: "good_line l"
  then obtain body where l: "l = body @ [newline]" and nb: "newline \<notin> set body"
    by (metis good_line_def append_butlast_last_id)
  have "takeWhile (\<lambda>x. x \<noteq> newline) (body @ newline # rest) = body"
    using nb by (auto simp add: takeWhile_tail takeWhile_eq_all_conv)
  then show ?thesis by (simp add: strchr_def l)
qed

lemma drop_good_line:
  "good_line l \<Longrightarrow> drop (length l - 1 + 1) (l @ rest) = rest"
  by (simp add: good_line_def)

lemma length_concat_good:
  "list_all good_line ls \<Longrightarrow> length (concat ls) \<le> 99 * length ls"
  by (induction ls) (auto simp: good_line_def MAX_LINE_LENGTH_def)

lemma evict_for_space_fits:
  "cur + ll \<le> max_len \<Longrightarrow> evict_for_space buf cnt cur ll = (buf, cnt)"
  by (simp add: evict_for_space.simps[of buf])

lemma enforce_line_limit_below:
  "cnt < int MAX_LOG_LINES \<Longrightarrow> enforce_line_limit buf cnt = (buf, cnt)"
  by (simp add: enforce_line_limit.simps[of buf])

lemma append_line_fits:
  "length buf + length l \<le> max_len \<Longrightarrow> append_line buf cnt l = (buf @ l, cnt + 1)"
  by (auto simp: append_line_def Let_def)

lemma evict_enforce_good:
  assumes good: "list_all good_line ls" and len: "length ls \<le> MAX_LOG_LINES"
    and ll: "ll < MAX_LINE_LENGTH"
    and e1: "evict_for_space (concat ls) (int (length ls)) (length (concat ls)) ll = (b1, c1)"
    and e2: "enforce_line_limit b1 c1 = (b2, c2)"
  shows "b2 = concat (kept ls) \<and> c2 = int (length (kept ls))
         \<and> length b2 + ll \<le> max_len"
proof (cases "length ls < MAX_LOG_LINES")
  case True
  from length_concat_good[OF good] True ll
  have fits: "length (concat ls) + ll \<le> max_len"
    by (simp add: max_len_def sizeof_log_buffer_def MAX_LOG_LINES_def MAX_LINE_LENGTH_def)
  from e1 have "b1 = concat ls" "c1 = int (length ls)"
    by (simp_all add: evict_for_space_fits[OF fits])
  with e2 True have "b2 = concat ls" "c2 = int (length ls)"
    by (simp_all add: enforce_line_limit_below)
  with True fits show ?thesis by (simp add: kept_def)
next
  case False
  with len have n: "length ls = MAX_LOG_LINES" by simp
  then obtain l0 ls' where ls: "ls = l0 # ls'"
    by (cases ls) (simp_all add: MAX_LOG_LINES_def)
  from good ls have g0: "good_line l0" and g': "list_all good_line ls'" by simp_all
  from n ls have n': "length ls' = 49" by (simp add: MAX_LOG_LINES_def)
  from length_concat_good[OF g'] n' ll
  have fits': "length (concat ls') + ll \<le> max_len"
    by (simp add: max_len_def sizeof_log_buffer_def MAX_LOG_LINES_def MAX_LINE_LENGTH_def)
  have sc: "strchr (concat ls) newline = Some (length l0 - 1)"
    using strchr_good_line[OF g0] by (simp add: ls)
  have dr: "drop (length l0 - 1 + 1) (concat ls) = concat ls'"
    using drop_good_line[OF g0] by (simp add: ls)
  have "b2 = concat ls' \<and> c2 = 49"
  proof (cases "length (concat ls) + ll \<le> max_len")
    case True
    from e1 have "b1 = concat ls" "c1 = int (length ls)"
      by (simp_all add: evict_for_space_fits[OF True])
    with e2 n sc dr n' show ?thesis
      by (simp add: enforce_line_limit.simps[of "concat ls"] enforce_line_limit_below
          MAX_LOG_LINES_def)
  next
    case False
    have "length (concat ls) - (length l0 - 1 + 1) + ll \<le> max_len"
      using fits' by (simp add: ls)
    with e1 False n sc dr have "b1 = concat ls'" "c1 = 49"
      by (simp_all add: evict_for_space.simps[of "concat ls"] evict_for_space_fits
          MAX_LOG_LINES_def)
    with e2 show ?thesis by (simp add: enforce_line_limit_below MAX_LOG_LINES_def)
  qed
  with fits' n n' ls show ?thesis by (simp add: kept_def)
qed

lemma newest_snoc:
  "length ls \<le> MAX_LOG_LINES \<Longrightarrow> newest (ls @ [l]) = kept ls @ [l]"
  by (cases ls) (auto simp: newest_def kept_def MAX_LOG_LINES_def)

lemma addLog_good_step:
  assumes inv: "ring_holds s ls" and ta: "log_textarea s = Some t"
    and l: "l = snprintf_log_line (clock s (clock_reads s)) msg" and gl: "good_line l"
  shows "ring_holds (addLog (Some msg) s) (newest (ls @ [l]))
         \<and> log_textarea (addLog (Some msg) s) = Some (log_buffer (addLog (Some msg) s))
         \<and> clock (addLog (Some msg) s) = clock s
         \<and> clock_reads (addLog (Some msg) s) = Suc (clock_reads s)"
proof -
  from inv have buf: "log_buffer s = concat ls" and cnt: "log_line_count s = int (length ls)"
    and len: "length ls \<le> MAX_LOG_LINES" and good: "list_all good_line ls"
    by (simp_all add: ring_holds_def)
  from gl have ll: "length l < MAX_LINE_LENGTH" by (simp add: good_line_def)
  obtain b1 c1 where e1:
    "evict_for_space (concat ls) (int (length ls)) (length (concat ls)) (length l) = (b1, c1)"
    by (cases "evict_for_space (concat ls) (int (length ls)) (length (concat ls)) (length l)")
  obtain b2 c2 where e2: "enforce_line_limit b1 c1 = (b2, c2)"
    by (cases "enforce_line_limit b1 c1")
  from evict_enforce_good[OF good len ll e1 e2]
  have b2: "b2 = concat (kept ls)" and c2: "c2 = int (length (kept ls))"
    and fits: "length b2 + length l \<le> max_len" by blast+
  have e3: "append_line b2 c2 l = (b2 @ l, c2 + 1)"
    by (rule append_line_fits[OF fits])
  from e1 have e1': "evict_for_space (log_buffer s) (log_line_count s) (length (log_buffer s))
      (length l) = (b1, c1)" by (simp add: buf cnt)
  have kl: "length (kept ls) < MAX_LOG_LINES" "list_all good_line (kept ls)"
    using len good by (cases ls; simp add: kept_def MAX_LOG_LINES_def)+
  show ?thesis
    using kl gl
    by (simp add: addLog_unfold[OF ta refl l e1' e2 e3] ring_holds_def newest_snoc[OF len] b2 c2)
qed

lemma newest_newest: "newest (newest xs @ ys) = newest (xs @ ys)"
proof (cases "length xs \<le> MAX_LOG_LINES")
  case True
  then show ?thesis by (simp add: newest_def)
next
  case False
  then have "length xs + length ys - MAX_LOG_LINES = length ys + (length xs - MAX_LOG_LINES)"
    by simp
  with False show ?thesis by (simp add: newest_def)
qed

lemma newest_idem: "length ls \<le> MAX_LOG_LINES \<Longrightarrow> newest ls = ls"
  by (simp add: newest_def)

lemma addLog_seq_good:
  "ring_holds s ls \<Longrightarrow> log_textarea s = Some t \<Longrightarrow>
   list_all good_line (log_lines (clock s) (clock_reads s) ms) \<Longrightarrow>
   ring_holds (addLog_seq (map Some ms) s) (newest (ls @ log_lines (clock s) (clock_reads s) ms))"
proof (induction ms arbitrary: s ls t)
  case Nil
  then show ?case by (simp add: newest_idem ring_holds_def)
next
  case (Cons m ms)
  let ?l = "snprintf_log_line (clock s (clock_reads s)) m"
  let ?s' = "addLog (Some m) s"
  from Cons.prems(3) have gl: "good_line ?l"
    and rest: "list_all good_line (log_lines (clock s) (Suc (clock_reads s)) ms)" by simp_all
  from addLog_good_step[OF Cons.prems(1) Cons.prems(2) refl gl]
  have inv': "ring_holds ?s' (newest (ls @ [?l]))"
    and ta': "log_textarea ?s' = Some (log_buffer ?s')"
    and clk: "clock ?s' = clock s" "clock_reads ?s' = Suc (clock_reads s)" by simp_all
  from rest clk have rest': "list_all good_line (log_lines (clock ?s') (clock_reads ?s') ms)"
    by simp
  from Cons.IH[OF inv' ta' rest'] show ?case
    by (simp add: clk newest_newest)
qed

lemma snprintf_log_line_short:
  "length ts + length m + 4 < MAX_LINE_LENGTH \<Longrightarrow>
   snprintf_log_line ts m = ''['' @ ts @ ''] '' @ m @ [newline]"
  by (simp add: snprintf_log_line_def MAX_LINE_LENGTH_def)

lemma good_line_short:
  "length ts + length m + 4 < MAX_LINE_LENGTH \<Longrightarrow> newline \<notin> set ts \<Longrightarrow> newline \<notin> set m \<Longrightarrow>
   good_line (snprintf_log_line ts m)"
  by (simp add: snprintf_log_line_short good_line_def butlast_append newline_def)

lemma log_lines_map:
  "log_lines clk n ms = map (\<lambda>i. snprintf_log_line (clk (n + i)) (ms ! i)) [0..<length ms]"
proof (induction ms arbitrary: n)
  case Nil
  show ?case by simp
next
  case (Cons m ms)
  show ?case by (simp add: Cons.IH map_upt_Suc del: upt_Suc)
qed

lemma create_screen_ftp_ring:
  "ring_holds (create_screen_ftp s) []"
  "log_textarea (create_screen_ftp s) = Some []"
  "clock (create_screen_ftp s) = clock s"
  "clock_reads (create_screen_ftp s) = clock_reads s"
  by (simp_all add: ring_holds_def create_screen_ftp_def)

text \<open>
  Claim C8. On a fresh screen, 51 messages of 10 bytes without newline (timestamps of 8
  bytes, as \<^verbatim>\<open>%H:%M:%S\<close> prints them) leave in the buffer exactly the lines of the last 50
  messages, in the order they were added, each complete; the line of the first message is
  the one evicted, and the count is 50.
\<close>

theorem fifo_keeps_last_50:
  "length ms = 51 \<Longrightarrow> (\<forall>m \<in> set ms. length m = 10 \<and> newline \<notin> set m) \<Longrightarrow>
   (\<forall>n. length (clock s n) = 8 \<and> newline \<notin> set (clock s n)) \<Longrightarrow>
   log_buffer (addLog_seq (map Some ms) (create_screen_ftp s))
     = concat (map (\<lambda>i. ''['' @ clock s (clock_reads s + i) @ ''] '' @ ms ! i @ [newline]) [1..<51])
   \<and> log_line_count (addLog_seq (map Some ms) (create_screen_ftp s)) = 50"
proof -
  assume len: "length ms = 51"
    and msgs: "\<forall>m \<in> set ms. length m = 10 \<and> newline \<notin> set m"
    and clk: "\<forall>n. length (clock s n) = 8 \<and> newline \<notin> set (clock s n)"
  let ?f = "\<lambda>i. snprintf_log_line (clock s (clock_reads s + i)) (ms ! i)"
  let ?g = "\<lambda>i. ''['' @ clock s (clock_reads s + i) @ ''] '' @ ms ! i @ [newline]"
  let ?ls = "log_lines (clock s) (clock_reads s) ms"
  have short: "length (clock s (clock_reads s + i)) + length (ms ! i) + 4 < MAX_LINE_LENGTH"
    if "i < 51" for i
    using that len msgs clk by (simp add: MAX_LINE_LENGTH_def)
  have fg: "?f i = ?g i" if "i < 51" for i
    by (rule snprintf_log_line_short[OF short[OF that]])
  have good: "list_all good_line ?ls"
    unfolding log_lines_map list_all_iff
  proof
    fix l assume "l \<in> set (map ?f [0..<length ms])"
    then obtain i where i: "i < 51" and l: "l = ?f i" using len by auto
    from i len msgs have "newline \<notin> set (ms ! i)" by simp
    with good_line_short[OF short[OF i]] clk show "good_line l" by (simp add: l)
  qed
  have rh: "ring_holds (addLog_seq (map Some ms) (create_screen_ftp s)) (newest ([] @ ?ls))"
    using addLog_seq_good[OF create_screen_ftp_ring(1,2), of s ms] good
    by (simp add: create_screen_ftp_ring)
  have e1: "newest ?ls = map ?f [1..<51]"
    by (simp add: newest_def log_lines_map len MAX_LOG_LINES_def drop_map)
  have e2: "map ?f [1..<51] = map ?g [1..<51]"
    by (rule map_cong) (simp_all add: fg)
  have e: "newest ?ls = map ?g [1..<51]"
    using e1 e2 by (rule trans)
  from rh have "log_buffer (addLog_seq (map Some ms) (create_screen_ftp s)) = concat (newest ?ls)"
    "log_line_count (addLog_seq (map Some ms) (create_screen_ftp s)) = int (length (newest ?ls))"
    by (simp_all add: ring_holds_def)
  then show ?thesis unfolding e by simp
qed

lemma example_lines:
  "map (\<lambda>i. ''['' @ noon_clock i @ ''] '' @ example_msgs ! i @ [newline]) [1..<51]
     = replicate 50 (''[12:00:00] later-line'' @ [newline])"
  by (simp add: list_eq_iff_nth_eq example_msgs_def noon_clock_def)

theorem fifo_keeps_last_50_witness:
  "length example_msgs = 51
   \<and> log_buffer (addLog_seq (map Some example_msgs) (create_screen_ftp (initial_state noon_clock)))
     = concat (replicate 50 (''[12:00:00] later-line'' @ [newline]))
   \<and> log_line_count (addLog_seq (map Some example_msgs) (create_screen_ftp (initial_state noon_clock)))
     = 50"
proof -
  have a: "length example_msgs = 51" by (simp add: example_msgs_def)
  have b: "\<forall>m \<in> set example_msgs. length m = 10 \<and> newline \<notin> set m"
    by (simp add: example_msgs_def newline_def)
  have c: "\<forall>n. length (clock (initial_state noon_clock) n) = 8
      \<and> newline \<notin> set (clock (initial_state noon_clock) n)"
    by (simp add: initial_state_def noon_clock_def newline_def)
  have d: "clock (initial_state noon_clock) = noon_clock"
    "clock_reads (initial_state noon_clock) = 0"
    by (simp_all add: initial_state_def)
  from fifo_keeps_last_50[OF a b c] a show ?thesis
    by (simp only: d add_0 example_lines)
qed

section \<open>Over-long messages\<close>

lemma evict_for_space_suffix:
  "evict_for_space buf cnt cur ll = (b, c) \<Longrightarrow> suffix b buf"
proof (induction buf cnt cur ll arbitrary: b c rule: evict_for_space.induct)
  case (1 buf cnt cur ll)
  show ?case
  proof (cases "cur + ll > max_len \<and> cnt > 0")
    case False
    with "1.prems" show ?thesis by (auto simp: evict_for_space.simps[of buf])
  next
    case True
    show ?thesis
    proof (cases "strchr buf newline")
      case None
      with True "1.prems" show ?thesis by (auto simp: evict_for_space.simps[of buf])
    next
      case (Some i)
      with True "1.prems"
      have "evict_for_space (drop (i + 1) buf) (cnt - 1) (cur - (i + 1)) ll = (b, c)"
        by (simp add: evict_for_space.simps[of buf])
      from "1.IH"[OF True Some this] have "suffix b (drop (i + 1) buf)" .
      then show ?thesis using suffix_drop suffix_order.trans by blast
    qed
  qed
qed

lemma enforce_line_limit_suffix:
  "enforce_line_limit buf cnt = (b, c) \<Longrightarrow> suffix b buf"
proof (induction buf cnt arbitrary: b c rule: enforce_line_limit.induct)
  case (1 buf cnt)
  show ?case
  proof (cases "cnt \<ge> int MAX_LOG_LINES")
    case False
    with "1.prems" show ?thesis by (auto simp: enforce_line_limit.simps[of buf])
  next
    case True
    show ?thesis
    proof (cases "strchr buf newline")
      case None
      with True "1.prems" show ?thesis by (auto simp: enforce_line_limit.simps[of buf])
    next
      case (Some i)
      with True "1.prems"
      have "enforce_line_limit (drop (i + 1) buf) (cnt - 1) = (b, c)"
        by (simp add: enforce_line_limit.simps[of buf])
      from "1.IH"[OF True Some this] have "suffix b (drop (i + 1) buf)" .
      then show ?thesis using suffix_drop suffix_order.trans by blast
    qed
  qed
qed

lemma take_append_short: "n \<le> length xs \<Longrightarrow> take n (xs @ ys) = take n xs"
  by simp

lemma snprintf_log_line_long:
  "MAX_LINE_LENGTH \<le> length m \<Longrightarrow>
   length (snprintf_log_line ts m) = MAX_LINE_LENGTH - 1
   \<and> prefix (snprintf_log_line ts m) (''['' @ ts @ ''] '' @ m)"
proof -
  assume m: "MAX_LINE_LENGTH \<le> length m"
  let ?p = "''['' @ ts @ ''] '' @ m"
  have "snprintf_log_line ts m = take (MAX_LINE_LENGTH - 1) (?p @ [newline])"
    by (simp add: snprintf_log_line_def)
  also have "\<dots> = take (MAX_LINE_LENGTH - 1) ?p"
  proof (rule take_append_short)
    show "MAX_LINE_LENGTH - 1 \<le> length ?p" using m by simp
  qed
  finally have e: "snprintf_log_line ts m = take (MAX_LINE_LENGTH - 1) ?p" .
  have "length (take (MAX_LINE_LENGTH - 1) ?p) = MAX_LINE_LENGTH - 1"
    using m by (simp add: MAX_LINE_LENGTH_def)
  moreover have "prefix (take (MAX_LINE_LENGTH - 1) ?p) ?p" by (rule take_is_prefix)
  ultimately show ?thesis by (simp only: e)
qed

lemma addLog_room:
  assumes ta: "log_textarea s = Some t"
    and l: "l = snprintf_log_line (clock s (clock_reads s)) m"
    and room: "length (log_buffer s) + length l \<le> max_len"
    and cnt: "log_line_count s < int MAX_LOG_LINES"
  shows "log_buffer (addLog (Some m) s) = log_buffer s @ l
         \<and> log_line_count (addLog (Some m) s) = log_line_count s + 1"
proof -
  have e1: "evict_for_space (log_buffer s) (log_line_count s) (length (log_buffer s)) (length l)
      = (log_buffer s, log_line_count s)"
    by (rule evict_for_space_fits[OF room])
  have e2: "enforce_line_limit (log_buffer s) (log_line_count s) = (log_buffer s, log_line_count s)"
    by (rule enforce_line_limit_below[OF cnt])
  have e3: "append_line (log_buffer s) (log_line_count s) l
      = (log_buffer s @ l, log_line_count s + 1)"
    by (rule append_line_fits[OF room])
  show ?thesis by (simp add: addLog_unfold[OF ta refl l e1 e2 e3])
qed

lemma addLog_keeps_suffix:
  assumes ta: "log_textarea s = Some t"
    and l: "l = snprintf_log_line (clock s (clock_reads s)) m"
  shows "\<exists>k. suffix k (log_buffer s) \<and> log_buffer (addLog (Some m) s) = k @ l"
proof -
  obtain b1 c1 where e1:
    "evict_for_space (log_buffer s) (log_line_count s) (length (log_buffer s)) (length l) = (b1, c1)"
    by (cases "evict_for_space (log_buffer s) (log_line_count s) (length (log_buffer s)) (length l)")
  obtain b2 c2 where e2: "enforce_line_limit b1 c1 = (b2, c2)"
    by (cases "enforce_line_limit b1 c1")
  obtain b3 c3 where e3: "append_line b2 c2 l = (b3, c3)"
    by (cases "append_line b2 c2 l")
  have s2: "suffix b2 (log_buffer s)"
    using evict_for_space_suffix[OF e1] enforce_line_limit_suffix[OF e2] suffix_order.trans
    by blast
  have ll: "length l \<le> max_len"
    by (simp add: l snprintf_log_line_def max_len_def sizeof_log_buffer_def MAX_LINE_LENGTH_def
        MAX_LOG_LINES_def)
  have "b3 = b2 @ l \<or> b3 = [] @ l"
    using e3 ll by (auto simp: append_line_def Let_def split: if_splits)
  then have "\<exists>k. suffix k (log_buffer s) \<and> b3 = k @ l"
    using s2 by (metis Nil_suffix)
  then show ?thesis by (simp add: addLog_unfold[OF ta refl l e1 e2 e3])
qed

text \<open>
  Claim C2, as amended. A message longer than the byte budget is stored as one line cut
  to the 99 bytes of \<^verbatim>\<open>log_line\<close>: a prefix of "[timestamp] message". The new buffer is
  what eviction has left of the old buffer (a suffix of it) followed by that line. When
  the old buffer has room for 99 more bytes and counts fewer than 50 lines, nothing of it
  is discarded and the line count goes up by one.
\<close>

theorem long_message_truncated:
  "log_textarea s = Some t \<Longrightarrow> sizeof_log_buffer < length m \<Longrightarrow>
   length (snprintf_log_line (clock s (clock_reads s)) m) = MAX_LINE_LENGTH - 1
   \<and> prefix (snprintf_log_line (clock s (clock_reads s)) m)
        (''['' @ clock s (clock_reads s) @ ''] '' @ m)
   \<and> (\<exists>k. suffix k (log_buffer s)
          \<and> log_buffer (addLog (Some m) s) = k @ snprintf_log_line (clock s (clock_reads s)) m)
   \<and> (length (log_buffer s) + (MAX_LINE_LENGTH - 1) \<le> max_len
        \<and> log_line_count s < int MAX_LOG_LINES \<longrightarrow>
      log_buffer (addLog (Some m) s)
        = log_buffer s @ snprintf_log_line (clock s (clock_reads s)) m
      \<and> log_line_count (addLog (Some m) s) = log_line_count s + 1)"
proof -
  assume ta: "log_textarea s = Some t" and m: "sizeof_log_buffer < length m"
  let ?l = "snprintf_log_line (clock s (clock_reads s)) m"
  from m have "MAX_LINE_LENGTH \<le> length m"
    by (simp add: sizeof_log_buffer_def MAX_LINE_LENGTH_def MAX_LOG_LINES_def)
  note ln = snprintf_log_line_long[OF this, of "clock s (clock_reads s)"]
  have room: "length (log_buffer s) + (MAX_LINE_LENGTH - 1) \<le> max_len
        \<and> log_line_count s < int MAX_LOG_LINES \<longrightarrow>
      log_buffer (addLog (Some m) s) = log_buffer s @ ?l
      \<and> log_line_count (addLog (Some m) s) = log_line_count s + 1"
    using addLog_room[OF ta refl, of m] ln by simp
  from ln addLog_keeps_suffix[OF ta refl, of m] room show ?thesis by (intro conjI) simp_all
qed

lemma one_line_state_fields:
  "log_buffer one_line_state = ''[12:00:00] a'' @ [newline]"
  "log_line_count one_line_state = 1"
  "log_textarea one_line_state = Some (log_buffer one_line_state)"
  "clock one_line_state = noon_clock"
  "clock_reads one_line_state = 1"
proof -
  let ?s = "create_screen_ftp (initial_state noon_clock)"
  let ?l = "snprintf_log_line (clock ?s (clock_reads ?s)) ''a''"
  have l: "?l = ''[12:00:00] a'' @ [newline]"
    by (simp add: snprintf_log_line_def create_screen_ftp_def initial_state_def noon_clock_def
        MAX_LINE_LENGTH_def)
  have ta: "log_textarea ?s = Some []" by (simp add: create_screen_ftp_def)
  have room: "length (log_buffer ?s) + length ?l \<le> max_len"
    unfolding l by (simp add: create_screen_ftp_def max_len_def sizeof_log_buffer_def
        MAX_LINE_LENGTH_def MAX_LOG_LINES_def)
  have cnt: "log_line_count ?s < int MAX_LOG_LINES"
    by (simp add: create_screen_ftp_def MAX_LOG_LINES_def)
  from addLog_room[OF ta refl room cnt]
  show "log_buffer one_line_state = ''[12:00:00] a'' @ [newline]"
    "log_line_count one_line_state = 1"
    unfolding one_line_state_def l by (simp_all add: create_screen_ftp_def)
  show "log_textarea one_line_state = Some (log_buffer one_line_state)"
    unfolding one_line_state_def using ta
    by (simp add: addLog_def Let_def split_beta)
  show "clock one_line_state = noon_clock"
    by (simp add: one_line_state_def create_screen_ftp_def initial_state_def)
  show "clock_reads one_line_state = 1"
    unfolding one_line_state_def using ta
    by (simp add: addLog_def Let_def split_beta create_screen_ftp_def initial_state_def)
qed

lemma one_line_state_room:
  "length (log_buffer one_line_state) + (MAX_LINE_LENGTH - 1) \<le> max_len"
  "log_line_count one_line_state < int MAX_LOG_LINES"
  "sizeof_log_buffer < length long_msg"
  by (simp_all add: one_line_state_fields max_len_def sizeof_log_buffer_def MAX_LINE_LENGTH_def
      MAX_LOG_LINES_def long_msg_def)

theorem long_message_truncated_witness:
  "log_textarea one_line_state = Some (log_buffer one_line_state)
   \<and> sizeof_log_buffer < length long_msg
   \<and> length (snprintf_log_line (clock one_line_state (clock_reads one_line_state)) long_msg)
       = MAX_LINE_LENGTH - 1
   \<and> log_buffer (addLog (Some long_msg) one_line_state)
       = log_buffer one_line_state
         @ snprintf_log_line (clock one_line_state (clock_reads one_line_state)) long_msg
   \<and> log_line_count (addLog (Some long_msg) one_line_state) = log_line_count one_line_state + 1"
  using long_message_truncated[OF one_line_state_fields(3) one_line_state_room(3)]
    one_line_state_room one_line_state_fields(3)
  by blast

text \<open>
  Counterexample to claim C2 as stated, on a buffer holding one short line: after a
  message of 5001 bytes the old line is still there, followed by the cut line, and the
  count is 2.
\<close>

theorem long_message_counterexample:
  "sizeof_log_buffer < length long_msg
   \<and> log_buffer one_line_state = ''[12:00:00] a'' @ [newline]
   \<and> log_buffer (addLog (Some long_msg) one_line_state)
       = (''[12:00:00] a'' @ [newline]) @ snprintf_log_line ''12:00:00'' long_msg
   \<and> log_line_count (addLog (Some long_msg) one_line_state) = 2"
proof -
  let ?l = "snprintf_log_line (clock one_line_state (clock_reads one_line_state)) long_msg"
  have "MAX_LINE_LENGTH \<le> length long_msg"
    by (simp add: long_msg_def MAX_LINE_LENGTH_def)
  from snprintf_log_line_long[OF this, of "clock one_line_state (clock_reads one_line_state)"]
  have "length ?l = MAX_LINE_LENGTH - 1" by simp
  with one_line_state_room(1)
  have room: "length (log_buffer one_line_state) + length ?l \<le> max_len" by simp
  from addLog_room[OF one_line_state_fields(3) refl room one_line_state_room(2)]
  show ?thesis
    by (simp add: one_line_state_fields one_line_state_room(3) noon_clock_def)
qed

section \<open>Physical lines of the buffer\<close>

text \<open>
  \<^verbatim>\<open>log_line_count\<close> counts calls, eviction removes text up to a newline. For messages and
  timestamps without a newline byte the two agree well enough: every line holds at most
  one newline (none when \<^verbatim>\<open>snprintf\<close> cut it), every eviction removes exactly one, and so the
  buffer never holds more newline-terminated lines than \<^verbatim>\<open>log_line_count\<close> says, hence at
  most 50. A message with newlines inside adds several such lines under one count.
\<close>

lemma nl_count_append [simp]: "nl_count (xs @ ys) = nl_count xs + nl_count ys"
  by (simp add: nl_count_def)

lemma nl_count_none: "newline \<notin> set xs \<Longrightarrow> nl_count xs = 0"
  by (simp add: nl_count_def)

lemma nl_count_take: "nl_count (take n xs) \<le> nl_count xs"
proof -
  have "nl_count (take n xs @ drop n xs) = nl_count (take n xs) + nl_count (drop n xs)"
    by (rule nl_count_append)
  then show ?thesis by simp
qed

lemma strchr_drop_nl:
  "strchr buf newline = Some i \<Longrightarrow> nl_count (drop (i + 1) buf) + 1 = nl_count buf"
proof -
  assume a: "strchr buf newline = Some i"
  let ?pre = "takeWhile (\<lambda>x. x \<noteq> newline) buf"
  from a have mem: "newline \<in> set buf" and i: "i = length ?pre"
    by (auto simp: strchr_def split: if_splits)
  from mem have dw: "dropWhile (\<lambda>x. x \<noteq> newline) buf \<noteq> []" by auto
  then obtain rest where r: "dropWhile (\<lambda>x. x \<noteq> newline) buf = newline # rest"
    using hd_dropWhile[OF dw] by (cases "dropWhile (\<lambda>x. x \<noteq> newline) buf") auto
  have buf: "buf = ?pre @ newline # rest"
    using takeWhile_dropWhile_id[of "\<lambda>x. x \<noteq> newline" buf] r by simp
  have pre: "nl_count ?pre = 0"
    by (rule nl_count_none) (auto dest: set_takeWhileD)
  have "drop (i + 1) buf = rest"
    by (subst buf) (simp add: i)
  moreover have "nl_count buf = nl_count ?pre + nl_count (newline # rest)"
    by (subst buf) (rule nl_count_append)
  ultimately show ?thesis using pre by (simp add: nl_count_def)
qed

lemma evict_for_space_nl:
  "evict_for_space buf cnt cur ll = (b, c) \<Longrightarrow> nl_count buf \<le> nat cnt \<Longrightarrow>
   nl_count b \<le> nat c"
proof (induction buf cnt cur ll arbitrary: b c rule: evict_for_space.induct)
  case (1 buf cnt cur ll)
  show ?case
  proof (cases "cur + ll > max_len \<and> cnt > 0")
    case False
    with "1.prems" show ?thesis by (auto simp: evict_for_space.simps[of buf])
  next
    case True
    show ?thesis
    proof (cases "strchr buf newline")
      case None
      with True "1.prems" show ?thesis
        by (auto simp: evict_for_space.simps[of buf] nl_count_def)
    next
      case (Some i)
      with True "1.prems"
      have e: "evict_for_space (drop (i + 1) buf) (cnt - 1) (cur - (i + 1)) ll = (b, c)"
        by (simp add: evict_for_space.simps[of buf])
      from strchr_drop_nl[OF Some] "1.prems"(2) True
      have "nl_count (drop (i + 1) buf) \<le> nat (cnt - 1)" by simp
      from "1.IH"[OF True Some e this] show ?thesis .
    qed
  qed
qed

lemma enforce_line_limit_nl:
  "enforce_line_limit buf cnt = (b, c) \<Longrightarrow> nl_count buf \<le> nat cnt \<Longrightarrow>
   nl_count b \<le> nat c"
proof (induction buf cnt arbitrary: b c rule: enforce_line_limit.induct)
  case (1 buf cnt)
  show ?case
  proof (cases "cnt \<ge> int MAX_LOG_LINES")
    case False
    with "1.prems" show ?thesis by (auto simp: enforce_line_limit.simps[of buf])
  next
    case True
    show ?thesis
    proof (cases "strchr buf newline")
      case None
      with True "1.prems" show ?thesis
        by (auto simp: enforce_line_limit.simps[of buf] nl_count_def)
    next
      case (Some i)
      with True "1.prems"
      have e: "enforce_line_limit (drop (i + 1) buf) (cnt - 1) = (b, c)"
        by (simp add: enforce_line_limit.simps[of buf])
      from strchr_drop_nl[OF Some] "1.prems"(2) True
      have "nl_count (drop (i + 1) buf) \<le> nat (cnt - 1)"
        by (simp add: MAX_LOG_LINES_def)
      from "1.IH"[OF True Some e this] show ?thesis .
    qed
  qed
qed

lemma snprintf_log_line_nl:
  "newline \<notin> set ts \<Longrightarrow> newline \<notin> set m \<Longrightarrow> nl_count (snprintf_log_line ts m) \<le> 1"
proof -
  assume a: "newline \<notin> set ts" "newline \<notin> set m"
  have "nl_count (''['' @ ts @ ''] '' @ m @ [newline]) = 1"
    using a by (simp add: nl_count_none) (simp add: nl_count_def newline_def)
  with nl_count_take[of "MAX_LINE_LENGTH - 1" "''['' @ ts @ ''] '' @ m @ [newline]"]
  show ?thesis by (simp add: snprintf_log_line_def)
qed

lemma append_line_nl:
  "append_line buf cnt l = (b, c) \<Longrightarrow> nl_count buf \<le> nat cnt \<Longrightarrow> 0 \<le> cnt \<Longrightarrow>
   nl_count l \<le> 1 \<Longrightarrow> nl_count b \<le> nat c"
proof -
  assume a: "append_line buf cnt l = (b, c)" and n: "nl_count buf \<le> nat cnt" and c0: "0 \<le> cnt"
    and l: "nl_count l \<le> 1"
  have t: "nl_count (take k l) \<le> 1" for k
    using nl_count_take[of k l] l by simp
  show ?thesis
  proof (cases "length buf + length l \<le> max_len")
    case True
    with a have "b = buf @ l" "c = cnt + 1"
      by (simp_all add: append_line_fits)
    with n c0 l show ?thesis by simp
  next
    case False
    with a have "b = take max_len l" "c = 1"
      by (auto simp add: append_line_def Let_def)
    with t[of max_len] show ?thesis by simp
  qed
qed

lemma addLog_phys_inv:
  assumes inv: "phys_inv s"
    and ts: "newline \<notin> set (clock s (clock_reads s))"
    and m: "case m of None \<Rightarrow> True | Some msg \<Rightarrow> newline \<notin> set msg"
  shows "phys_inv (addLog m s)"
proof (cases "log_textarea s = None \<or> m = None")
  case True
  with inv show ?thesis by (simp add: addLog_def)
next
  case False
  then obtain t msg where ta: "log_textarea s = Some t" and ms: "m = Some msg" by auto
  define l where "l = snprintf_log_line (clock s (clock_reads s)) msg"
  obtain b1 c1 where e1:
    "evict_for_space (log_buffer s) (log_line_count s) (length (log_buffer s)) (length l) = (b1, c1)"
    by (cases "evict_for_space (log_buffer s) (log_line_count s) (length (log_buffer s)) (length l)")
  obtain b2 c2 where e2: "enforce_line_limit b1 c1 = (b2, c2)"
    by (cases "enforce_line_limit b1 c1")
  obtain b3 c3 where e3: "append_line b2 c2 l = (b3, c3)"
    by (cases "append_line b2 c2 l")
  from inv have c0: "0 \<le> log_line_count s"
    and n0: "nl_count (log_buffer s) \<le> nat (log_line_count s)"
    by (simp_all add: phys_inv_def)
  from evict_for_space_bounds[OF e1] c0 have c1: "0 \<le> c1" by simp
  from enforce_line_limit_bounds[OF e2] c1 have c2: "0 \<le> c2" "c2 < int MAX_LOG_LINES"
    by simp_all
  from append_line_bounds[OF e3 c2] have c3: "0 \<le> c3" by simp
  from m ms have "newline \<notin> set msg" by simp
  from snprintf_log_line_nl[OF ts this] have nl: "nl_count l \<le> 1" by (simp add: l_def)
  from append_line_nl[OF e3 enforce_line_limit_nl[OF e2 evict_for_space_nl[OF e1 n0]] c2(1) nl]
  have "nl_count b3 \<le> nat c3" .
  with c3 show ?thesis
    by (simp add: addLog_unfold[OF ta ms l_def e1 e2 e3] phys_inv_def)
qed

lemma addLog_seq_phys_inv:
  "phys_inv s \<Longrightarrow> \<forall>n. newline \<notin> set (clock s n) \<Longrightarrow>
   list_all (\<lambda>m. case m of None \<Rightarrow> True | Some msg \<Rightarrow> newline \<notin> set msg) ms \<Longrightarrow>
   phys_inv (addLog_seq ms s)"
proof (induction ms arbitrary: s)
  case Nil
  then show ?case by simp
next
  case (Cons m ms)
  from Cons.prems have "phys_inv (addLog m s)"
    by (intro addLog_phys_inv) simp_all
  moreover from Cons.prems(2) have "\<forall>n. newline \<notin> set (clock (addLog m s) n)" by simp
  moreover from Cons.prems(3)
  have "list_all (\<lambda>m. case m of None \<Rightarrow> True | Some msg \<Rightarrow> newline \<notin> set msg) ms" by simp
  ultimately show ?case using Cons.IH by simp
qed

lemma physical_lines_within_budget:
  assumes "\<forall>n. newline \<notin> set (clock s n)"
    and "list_all (\<lambda>m. case m of None \<Rightarrow> True | Some msg \<Rightarrow> newline \<notin> set msg) ms"
  shows "nl_count (log_buffer (addLog_seq ms (create_screen_ftp s))) \<le> 50"
proof -
  have "phys_inv (create_screen_ftp s)"
    by (simp add: phys_inv_def create_screen_ftp_def nl_count_def)
  moreover from assms(1) have "\<forall>n. newline \<notin> set (clock (create_screen_ftp s) n)"
    by (simp add: create_screen_ftp_def)
  ultimately have "phys_inv (addLog_seq ms (create_screen_ftp s))"
    using assms(2) by (rule addLog_seq_phys_inv)
  moreover have "log_ring_inv (addLog_seq ms (create_screen_ftp s))"
    by (rule addLog_seq_inv) (rule create_screen_ftp_inv)
  ultimately show ?thesis
    unfolding phys_inv_def log_ring_inv_def MAX_LOG_LINES_def by linarith
qed

lemma nl_count_replicate: "nl_count (replicate n newline) = n"
  by (induction n) (simp_all add: nl_count_def)

text \<open>
  Claim C1, as amended. After the screen is created, whatever messages \<^verbatim>\<open>addLog\<close> is
  called with (null pointers included), the text in the log buffer stays within
  \<open>max_len = 4999\<close> bytes, so that with its terminating NUL it never exceeds the 5000
  bytes of the buffer, and the counter \<^verbatim>\<open>log_line_count\<close> stays between 0 and 50. The
  sequence is arbitrary, so the bounds hold after every single append. The lines the
  buffer holds are bounded by the counter, hence by 50, when no message and no timestamp
  holds a newline byte.
\<close>

theorem addLog_within_budget:
  "length (log_buffer (addLog_seq ms (create_screen_ftp s))) + 1 \<le> 5000
   \<and> 0 \<le> log_line_count (addLog_seq ms (create_screen_ftp s))
   \<and> log_line_count (addLog_seq ms (create_screen_ftp s)) \<le> 50
   \<and> ((\<forall>n. newline \<notin> set (clock s n)) \<and> list_all no_newline ms \<longrightarrow>
        nl_count (log_buffer (addLog_seq ms (create_screen_ftp s)))
          \<le> nat (log_line_count (addLog_seq ms (create_screen_ftp s)))
        \<and> nl_count (log_buffer (addLog_seq ms (create_screen_ftp s))) \<le> 50)"
proof -
  let ?S = "addLog_seq ms (create_screen_ftp s)"
  have inv: "log_ring_inv ?S"
    by (rule addLog_seq_inv) (rule create_screen_ftp_inv)
  then have b: "length (log_buffer ?S) + 1 \<le> 5000 \<and> 0 \<le> log_line_count ?S
      \<and> log_line_count ?S \<le> 50"
    by (simp add: log_ring_inv_def max_len_def sizeof_log_buffer_def
        MAX_LOG_LINES_def MAX_LINE_LENGTH_def)
  have p: "(\<forall>n. newline \<notin> set (clock s n)) \<and> list_all no_newline ms \<longrightarrow>
        nl_count (log_buffer ?S) \<le> nat (log_line_count ?S) \<and> nl_count (log_buffer ?S) \<le> 50"
  proof (intro impI, elim conjE)
    assume c: "\<forall>n. newline \<notin> set (clock s n)" and m: "list_all no_newline ms"
    have "phys_inv (create_screen_ftp s)"
      by (simp add: phys_inv_def create_screen_ftp_def nl_count_def)
    moreover from c have "\<forall>n. newline \<notin> set (clock (create_screen_ftp s) n)"
      by (simp add: create_screen_ftp_def)
    moreover from m
    have "list_all (\<lambda>m. case m of None \<Rightarrow> True | Some msg \<Rightarrow> newline \<notin> set msg) ms"
      by (simp add: no_newline_def[abs_def])
    ultimately have "phys_inv ?S" by (rule addLog_seq_phys_inv)
    then have "nl_count (log_buffer ?S) \<le> nat (log_line_count ?S)"
      by (simp add: phys_inv_def)
    moreover from b have "nat (log_line_count ?S) \<le> 50" by linarith
    ultimately show "nl_count (log_buffer ?S) \<le> nat (log_line_count ?S)
        \<and> nl_count (log_buffer ?S) \<le> 50" by simp
  qed
  from b p show ?thesis by blast
qed

theorem addLog_within_budget_witness:
  "(\<forall>n. newline \<notin> set (clock (initial_state noon_clock) n))
   \<and> list_all no_newline [Some ''hello'', None, Some ''world'']
   \<and> length (log_buffer (addLog_seq [Some ''hello'', None, Some ''world'']
        (create_screen_ftp (initial_state noon_clock)))) + 1 \<le> 5000
   \<and> log_line_count (addLog_seq [Some ''hello'', None, Some ''world'']
        (create_screen_ftp (initial_state noon_clock))) \<le> 50
   \<and> nl_count (log_buffer (addLog_seq [Some ''hello'', None, Some ''world'']
        (create_screen_ftp (initial_state noon_clock)))) \<le> 50"
proof -
  have a: "\<forall>n. newline \<notin> set (clock (initial_state noon_clock) n)"
    by (simp add: initial_state_def noon_clock_def newline_def)
  have b: "list_all no_newline [Some ''hello'', None, Some ''world'']"
    by (simp add: no_newline_def newline_def)
  from addLog_within_budget[of "[Some ''hello'', None, Some ''world'']" "initial_state noon_clock"]
    a b
  show ?thesis by blast
qed

text \<open>
  Counterexample to claim C1 as stated: one message of 60 newline bytes on a fresh screen
  is counted as one line and leaves 61 newline-terminated lines in the buffer, more than
  the line budget of 50.
\<close>

theorem multiline_message_counterexample:
  "log_line_count (addLog_seq [Some multiline_msg] (create_screen_ftp (initial_state noon_clock)))
     = 1
   \<and> nl_count (log_buffer (addLog_seq [Some multiline_msg]
        (create_screen_ftp (initial_state noon_clock)))) = 61
   \<and> \<not> nl_count (log_buffer (addLog_seq [Some multiline_msg]
        (create_screen_ftp (initial_state noon_clock)))) \<le> 50"
proof -
  let ?s = "create_screen_ftp (initial_state noon_clock)"
  let ?l = "snprintf_log_line (clock ?s (clock_reads ?s)) multiline_msg"
  have l: "?l = ''[12:00:00] '' @ multiline_msg @ [newline]"
  proof -
    have "snprintf_log_line ''12:00:00'' multiline_msg
        = ''['' @ ''12:00:00'' @ ''] '' @ multiline_msg @ [newline]"
      by (rule snprintf_log_line_short) (simp add: multiline_msg_def MAX_LINE_LENGTH_def)
    then show ?thesis
      by (simp add: create_screen_ftp_def initial_state_def noon_clock_def)
  qed
  have len: "length ?l = 72" unfolding l by (simp add: multiline_msg_def)
  have ta: "log_textarea ?s = Some []" by (simp add: create_screen_ftp_def)
  have buf0: "log_buffer ?s = []" "log_line_count ?s = 0" by (simp_all add: create_screen_ftp_def)
  have room: "length (log_buffer ?s) + length ?l \<le> max_len"
    unfolding len by (simp add: buf0 max_len_def sizeof_log_buffer_def
        MAX_LINE_LENGTH_def MAX_LOG_LINES_def)
  have cnt: "log_line_count ?s < int MAX_LOG_LINES"
    by (simp add: buf0 MAX_LOG_LINES_def)
  from addLog_room[OF ta refl room cnt]
  have r: "log_buffer (addLog (Some multiline_msg) ?s) = ?l"
    "log_line_count (addLog (Some multiline_msg) ?s) = 1"
    by (simp_all add: buf0)
  have c1: "nl_count ''[12:00:00] '' = 0" and c2: "nl_count [newline] = 1"
    by (simp_all add: nl_count_def newline_def)
  have e: "nl_count (''[12:00:00] '' @ replicate 60 newline @ [newline]) = 0 + (60 + 1)"
    unfolding nl_count_append nl_count_replicate c1 c2 by (rule refl)
  have "nl_count ?l = nl_count (''[12:00:00] '' @ multiline_msg @ [newline])"
    by (simp only: l)
  also have "\<dots> = 61"
    unfolding multiline_msg_def e by simp
  finally have "nl_count ?l = 61" .
  with r show ?thesis by simp
qed

end
